theory Spec2Isabelle
  imports Main "HOL-Library.Sublist"
begin

section \<open>Python values and the outside world\<close>

text \<open>
  The script \<^verbatim>\<open>elastalert/create_index.py\<close> is one function, \<^verbatim>\<open>main\<close>. Its inputs are the
  command line, five environment variables, the file system (through \<^verbatim>\<open>os.path.isfile\<close>,
  \<^verbatim>\<open>open\<close> and \<^verbatim>\<open>yaml.load\<close>), the terminal (through \<^verbatim>\<open>raw_input\<close> and \<^verbatim>\<open>getpass\<close>) and the
  Elasticsearch cluster. Its effects are the prompts and messages it writes, the two
  seconds it sleeps and the requests it sends to the cluster.

  Values read from the YAML file are dynamically typed; the script passes them on without
  looking at their type, so they are kept as Python scalars.
\<close>

datatype pyval = PNone | PBool bool | PInt int | PStr string

text \<open>The bodies of the mapping requests are nested dict literals.\<close>

datatype json = JStr string | JBool bool | JObj "(string \<times> json) list"

text \<open>
  The four requests the script sends: \<^verbatim>\<open>IndicesClient(es).exists(index)\<close>,
  \<^verbatim>\<open>es.indices.create(index)\<close>, \<^verbatim>\<open>es.indices.put_mapping(index, doc_type, body)\<close> and
  \<^verbatim>\<open>elasticsearch.helpers.reindex(es, source, target)\<close>.
\<close>

datatype es_call =
    Exists string
  | Create string
  | PutMapping string string json
  | Reindex string string

text \<open>
  Every exception that can leave \<^verbatim>\<open>main\<close>. The script has no \<^verbatim>\<open>try\<close> statement, so each of
  them ends the run. \<open>SystemExit\<close> is what \<^verbatim>\<open>argparse\<close> raises on a bad command line.
\<close>

datatype error =
    SystemExit
  | YAMLError
  | AttributeError
  | EOFError
  | ValueError
  | ElasticsearchException es_call

datatype event = Prompt string | Print string | Sleep nat | Call es_call

text \<open>
  The world a run acts on: the lines still to be read from the terminal, the state of the
  cluster (of any type \<open>'s\<close>) and the effects so far, oldest first.
\<close>

record 's world =
  stdin :: "string list"
  cluster :: 's
  trace :: "event list"

type_synonym ('s, 'a) action = "'s world \<Rightarrow> (error + 'a) \<times> 's world"

definition return :: "'a \<Rightarrow> ('s, 'a) action" where
  "return x w = (Inr x, w)"

definition raise :: "error \<Rightarrow> ('s, 'a) action" where
  "raise e w = (Inl e, w)"

text \<open>Sequencing of two statements: an exception in the first skips the second.\<close>

definition and_then :: "('s, 'a) action \<Rightarrow> ('a \<Rightarrow> ('s, 'b) action) \<Rightarrow> ('s, 'b) action" where
  "and_then m f w = (case m w of (Inl e, w') \<Rightarrow> (Inl e, w') | (Inr x, w') \<Rightarrow> f x w')"

text \<open>
  \<^verbatim>\<open>raw_input(prompt)\<close> writes the prompt and returns the next line without its newline;
  at end of input it raises \<^verbatim>\<open>EOFError\<close>. \<^verbatim>\<open>getpass.getpass\<close> reads the next line of the same
  terminal without echo.
\<close>

definition raw_input :: "string \<Rightarrow> ('s, string) action" where
  "raw_input prompt w =
     (case stdin w of
        [] \<Rightarrow> (Inl EOFError, w\<lparr>trace := trace w @ [Prompt prompt]\<rparr>)
      | l # ls \<Rightarrow> (Inr l, w\<lparr>stdin := ls, trace := trace w @ [Prompt prompt]\<rparr>))"

definition getpass :: "string \<Rightarrow> ('s, string) action" where
  "getpass prompt = raw_input prompt"

definition print :: "string \<Rightarrow> ('s, unit) action" where
  "print s w = (Inr (), w\<lparr>trace := trace w @ [Print s]\<rparr>)"

definition time_sleep :: "nat \<Rightarrow> ('s, unit) action" where
  "time_sleep n w = (Inr (), w\<lparr>trace := trace w @ [Sleep n]\<rparr>)"

text \<open>
  A request either returns (only \<^verbatim>\<open>exists\<close> has a result the script reads) or raises. What the
  cluster answers is a parameter of the model: a function from its state and the request to
  the reply and its next state.
\<close>

datatype reply = Raises | Returns bool

definition request :: "('s \<Rightarrow> es_call \<Rightarrow> reply \<times> 's) \<Rightarrow> es_call \<Rightarrow> ('s, bool) action" where
  "request respond c w =
     (case respond (cluster w) c of
        (Raises, s') \<Rightarrow>
          (Inl (ElasticsearchException c), w\<lparr>cluster := s', trace := trace w @ [Call c]\<rparr>)
      | (Returns b, s') \<Rightarrow>
          (Inr b, w\<lparr>cluster := s', trace := trace w @ [Call c]\<rparr>))"

section \<open>The command line (lines 23 to 52)\<close>

text \<open>
  The options of the parser, as they appear on a command line after \<^verbatim>\<open>argparse\<close> has split
  it. Options with a value carry the string given.
\<close>

datatype cli_opt =
    OptHost string
  | OptPort string
  | OptUsername string
  | OptPassword string
  | OptUrlPrefix string
  | OptNoAuth
  | OptSsl
  | OptNoSsl
  | OptVerifyCerts
  | OptNoVerifyCerts
  | OptIndex string
  | OptOldIndex string
  | OptSendGetBodyAs string
  | OptBotoProfile string
  | OptProfile string
  | OptAwsRegion string
  | OptTimeout string
  | OptConfig string

text \<open>
  The environment variables the script reads. \<open>ES_USE_SSL\<close> holds the value of
  \<^verbatim>\<open>env('ES_USE_SSL', None)\<close>: the library \<^verbatim>\<open>envparse\<close> has already turned the text into a
  boolean, or returned \<^verbatim>\<open>None\<close> when the variable is not set.
\<close>

record environ =
  ES_HOST :: "string option"
  ES_PORT :: "string option"
  ES_USERNAME :: "string option"
  ES_PASSWORD :: "string option"
  ES_USE_SSL :: "bool option"

text \<open>The namespace \<^verbatim>\<open>args\<close> that \<^verbatim>\<open>parse_args\<close> returns.\<close>

record args =
  host :: "string option"
  port :: "int option"
  username :: "string option"
  password :: "string option"
  url_prefix :: "string option"
  no_auth :: "bool option"
  ssl :: "bool option"
  verify_certs :: "bool option"
  index :: "string option"
  old_index :: "string option"
  send_get_body_as :: string
  profile :: "string option"
  aws_region :: "string option"
  timeout :: pyval
  config :: string

text \<open>
  The defaults of the parser. The default of \<^verbatim>\<open>--port\<close> is the text of \<open>ES_PORT\<close>, which
  \<^verbatim>\<open>argparse\<close> converts with \<^verbatim>\<open>int\<close> only when the option is absent; \<open>port\<close> starts as \<^verbatim>\<open>None\<close>
  here and \<open>parse_args\<close> below does the conversion. \<^verbatim>\<open>--ssl\<close> is declared before \<^verbatim>\<open>--no-ssl\<close>, so
  its default (the environment's) is the one of \<open>ssl\<close>.
\<close>

definition defaults :: "environ \<Rightarrow> args" where
  "defaults env =
     \<lparr> host = ES_HOST env, port = None, username = ES_USERNAME env,
       password = ES_PASSWORD env, url_prefix = None, no_auth = None,
       ssl = ES_USE_SSL env, verify_certs = None, index = None, old_index = None,
       send_get_body_as = ''GET'', profile = None, aws_region = None,
       timeout = PInt 60, config = ''config.yaml'' \<rparr>"

text \<open>
  One option stores its value in the namespace. \<^verbatim>\<open>--port\<close> has \<^verbatim>\<open>type=int\<close>: the builtin
  \<^verbatim>\<open>int\<close> is the parameter \<open>to_int\<close>, and text it rejects makes \<^verbatim>\<open>argparse\<close> exit.
  \<^verbatim>\<open>--boto-profile\<close> and \<^verbatim>\<open>--profile\<close> store into the same attribute.
\<close>

fun take_action :: "(string \<Rightarrow> int option) \<Rightarrow> cli_opt \<Rightarrow> args \<Rightarrow> error + args" where
  "take_action to_int (OptHost s) ns = Inr (ns\<lparr>host := Some s\<rparr>)"
| "take_action to_int (OptPort s) ns =
     (case to_int s of None \<Rightarrow> Inl SystemExit | Some n \<Rightarrow> Inr (ns\<lparr>port := Some n\<rparr>))"
| "take_action to_int (OptUsername s) ns = Inr (ns\<lparr>username := Some s\<rparr>)"
| "take_action to_int (OptPassword s) ns = Inr (ns\<lparr>password := Some s\<rparr>)"
| "take_action to_int (OptUrlPrefix s) ns = Inr (ns\<lparr>url_prefix := Some s\<rparr>)"
| "take_action to_int OptNoAuth ns = Inr (ns\<lparr>no_auth := Some True\<rparr>)"
| "take_action to_int OptSsl ns = Inr (ns\<lparr>ssl := Some True\<rparr>)"
| "take_action to_int OptNoSsl ns = Inr (ns\<lparr>ssl := Some False\<rparr>)"
| "take_action to_int OptVerifyCerts ns = Inr (ns\<lparr>verify_certs := Some True\<rparr>)"
| "take_action to_int OptNoVerifyCerts ns = Inr (ns\<lparr>verify_certs := Some False\<rparr>)"
| "take_action to_int (OptIndex s) ns = Inr (ns\<lparr>index := Some s\<rparr>)"
| "take_action to_int (OptOldIndex s) ns = Inr (ns\<lparr>old_index := Some s\<rparr>)"
| "take_action to_int (OptSendGetBodyAs s) ns = Inr (ns\<lparr>send_get_body_as := s\<rparr>)"
| "take_action to_int (OptBotoProfile s) ns = Inr (ns\<lparr>profile := Some s\<rparr>)"
| "take_action to_int (OptProfile s) ns = Inr (ns\<lparr>profile := Some s\<rparr>)"
| "take_action to_int (OptAwsRegion s) ns = Inr (ns\<lparr>aws_region := Some s\<rparr>)"
| "take_action to_int (OptTimeout s) ns = Inr (ns\<lparr>timeout := PStr s\<rparr>)"
| "take_action to_int (OptConfig s) ns = Inr (ns\<lparr>config := s\<rparr>)"

text \<open>The options are consumed from left to right, so a repeated option keeps its last value.\<close>

fun consume :: "(string \<Rightarrow> int option) \<Rightarrow> cli_opt list \<Rightarrow> args \<Rightarrow> error + args" where
  "consume to_int [] ns = Inr ns"
| "consume to_int (x # xs) ns =
     (case take_action to_int x ns of Inl e \<Rightarrow> Inl e | Inr ns' \<Rightarrow> consume to_int xs ns')"

fun is_port :: "cli_opt \<Rightarrow> bool" where
  "is_port (OptPort s) = True"
| "is_port x = False"

definition parse_args :: "(string \<Rightarrow> int option) \<Rightarrow> environ \<Rightarrow> cli_opt list \<Rightarrow> error + args" where
  "parse_args to_int env argv =
     (case consume to_int argv (defaults env) of
        Inl e \<Rightarrow> Inl e
      | Inr ns \<Rightarrow>
          if list_ex is_port argv then Inr ns
          else (case ES_PORT env of
                  None \<Rightarrow> Inr ns
                | Some s \<Rightarrow>
                    (case to_int s of
                       None \<Rightarrow> Inl SystemExit
                     | Some n \<Rightarrow> Inr (ns\<lparr>port := Some n\<rparr>))))"

section \<open>Choosing the configuration file (lines 54 to 59)\<close>

text \<open>
  What \<^verbatim>\<open>yaml.load\<close> makes of a file: it raises, or returns something that is not a dict
  (a scalar, a list, \<^verbatim>\<open>None\<close> for an empty file), or returns a dict.
\<close>

datatype yaml_doc = Unparsable | NotMapping | Mapping "string \<rightharpoonup> pyval"

text \<open>The regular files of the file system, each with what \<^verbatim>\<open>yaml.load\<close> makes of it.\<close>

type_synonym filesystem = "string \<rightharpoonup> yaml_doc"

text \<open>\<^verbatim>\<open>os.path.isfile\<close>; the empty path is never a file.\<close>

definition isfile :: "filesystem \<Rightarrow> string \<Rightarrow> bool" where
  "isfile fs path = (path \<noteq> [] \<and> fs path \<noteq> None)"

definition choose_filename :: "filesystem \<Rightarrow> args \<Rightarrow> string" where
  "choose_filename fs a =
     (if isfile fs ''config.yaml'' then ''config.yaml''
      else if isfile fs (config a) then config a
      else [])"

section \<open>Resolving the configuration (lines 61 to 97)\<close>

text \<open>The local variables of \<^verbatim>\<open>main\<close> that make up the resolved configuration.\<close>

record resolved =
  host :: pyval
  port :: pyval
  username :: pyval
  password :: pyval
  url_prefix :: pyval
  use_ssl :: pyval
  verify_certs :: bool
  aws_region :: pyval
  send_get_body_as :: pyval
  ca_certs :: pyval
  client_cert :: pyval
  client_key :: pyval

text \<open>\<^verbatim>\<open>data.get(key)\<close> and \<^verbatim>\<open>data.get(key, default)\<close>.\<close>

definition dict_get :: "(string \<rightharpoonup> pyval) \<Rightarrow> string \<Rightarrow> pyval \<Rightarrow> pyval" where
  "dict_get data key dflt = (case data key of None \<Rightarrow> dflt | Some v \<Rightarrow> v)"

text \<open>
  \<^verbatim>\<open>x if x else y\<close> for an attribute \<open>x\<close> that is \<^verbatim>\<open>None\<close> or a string, and for one that is
  \<^verbatim>\<open>None\<close> or an integer: the empty string and zero are false, as \<^verbatim>\<open>None\<close> is.
\<close>

definition str_or :: "string option \<Rightarrow> pyval \<Rightarrow> pyval" where
  "str_or x y = (case x of None \<Rightarrow> y | Some s \<Rightarrow> if s = [] then y else PStr s)"

definition int_or :: "int option \<Rightarrow> pyval \<Rightarrow> pyval" where
  "int_or x y = (case x of None \<Rightarrow> y | Some n \<Rightarrow> if n = 0 then y else PInt n)"

text \<open>Lines 64 to 75: a configuration file was found and loaded as the dict \<open>data\<close>.\<close>

definition from_file :: "args \<Rightarrow> (string \<rightharpoonup> pyval) \<Rightarrow> resolved" where
  "from_file a data =
     \<lparr> host = str_or (args.host a) (dict_get data ''es_host'' PNone),
       port = int_or (args.port a) (dict_get data ''es_port'' PNone),
       username = str_or (args.username a) (dict_get data ''es_username'' PNone),
       password = str_or (args.password a) (dict_get data ''es_password'' PNone),
       url_prefix =
         (case args.url_prefix a of
            Some s \<Rightarrow> PStr s
          | None \<Rightarrow> dict_get data ''es_url_prefix'' (PStr [])),
       use_ssl =
         (case ssl a of Some b \<Rightarrow> PBool b | None \<Rightarrow> dict_get data ''use_ssl'' PNone),
       verify_certs =
         (case args.verify_certs a of
            Some b \<Rightarrow> b
          | None \<Rightarrow> dict_get data ''verify_certs'' PNone \<noteq> PBool False),
       aws_region = dict_get data ''aws_region'' PNone,
       send_get_body_as = dict_get data ''send_get_body_as'' (PStr ''GET''),
       ca_certs = dict_get data ''ca_certs'' PNone,
       client_cert = dict_get data ''client_cert'' PNone,
       client_key = dict_get data ''client_key'' PNone \<rparr>"

text \<open>Lines 62 and 63, then lines 64 to 75.\<close>

definition load_and_resolve :: "filesystem \<Rightarrow> string \<Rightarrow> args \<Rightarrow> ('s, resolved) action" where
  "load_and_resolve fs filename a =
     (case fs filename of
        Some (Mapping data) \<Rightarrow> return (from_file a data)
      | Some NotMapping \<Rightarrow> raise AttributeError
      | _ \<Rightarrow> raise YAMLError)"

text \<open>\<^verbatim>\<open>str.lower\<close> on the letters A to Z; other bytes are left as they are.\<close>

definition lower_char :: "char \<Rightarrow> char" where
  "lower_char c =
     (case map_of (zip ''ABCDEFGHIJKLMNOPQRSTUVWXYZ'' ''abcdefghijklmnopqrstuvwxyz'') c of
        Some l \<Rightarrow> l
      | None \<Rightarrow> c)"

definition lower :: "string \<Rightarrow> string" where
  "lower s = map lower_char s"

definition opt_str :: "string option \<Rightarrow> pyval" where
  "opt_str x = (case x of None \<Rightarrow> PNone | Some s \<Rightarrow> PStr s)"

text \<open>
  Lines 77 to 97: no configuration file. The statements run in the order of the source, so
  the prompts appear in that order; \<^verbatim>\<open>int\<close> on the answer for the port raises \<^verbatim>\<open>ValueError\<close>
  when it is not a number.
\<close>

definition interactive :: "(string \<Rightarrow> int option) \<Rightarrow> args \<Rightarrow> ('s, resolved) action" where
  "interactive to_int a =
     (let username0 = str_or (args.username a) PNone;
          password0 = str_or (args.password a) PNone;
          aws_region = opt_str (args.aws_region a)
      in
      and_then
        (case args.host a of
           None \<Rightarrow> raw_input ''Enter Elasticsearch host: ''
         | Some s \<Rightarrow> if s = [] then raw_input ''Enter Elasticsearch host: '' else return s)
        (\<lambda>host.
      and_then
        (let ask = and_then (raw_input ''Enter Elasticsearch port: '')
                     (\<lambda>l. case to_int l of None \<Rightarrow> raise ValueError | Some n \<Rightarrow> return n)
         in case args.port a of
              None \<Rightarrow> ask
            | Some n \<Rightarrow> if n = 0 then ask else return n)
        (\<lambda>port.
      and_then
        (case ssl a of
           Some b \<Rightarrow> return b
         | None \<Rightarrow> and_then (raw_input ''Use SSL? t/f: '')
                     (\<lambda>l. return (lower l \<in> {''t'', ''true''})))
        (\<lambda>use_ssl.
      and_then
        (if use_ssl then
           (case args.verify_certs a of
              Some b \<Rightarrow> return b
            | None \<Rightarrow> and_then (raw_input ''Verify TLS certificates? t/f: '')
                        (\<lambda>l. return (lower l \<notin> {''f'', ''false''})))
         else return True)
        (\<lambda>verify_certs.
      and_then
        (if no_auth a = None \<and> username0 = PNone then
           and_then (raw_input ''Enter optional basic-auth username (or leave blank): '')
             (\<lambda>u. and_then (getpass ''Enter optional basic-auth password (or leave blank): '')
                (\<lambda>p. return (PStr u, PStr p)))
         else return (username0, password0))
        (\<lambda>(username, password).
      and_then
        (case args.url_prefix a of
           Some s \<Rightarrow> return s
         | None \<Rightarrow> raw_input
             ''Enter optional Elasticsearch URL prefix (prepends a keyword to the URL of every request): '')
        (\<lambda>url_prefix.
      return
        \<lparr> host = PStr host, port = PInt port, username = username, password = password,
          url_prefix = PStr url_prefix, use_ssl = PBool use_ssl, verify_certs = verify_certs,
          aws_region = aws_region, send_get_body_as = PStr (args.send_get_body_as a),
          ca_certs = PNone, client_cert = PNone, client_key = PNone \<rparr>)))))))"

text \<open>Lines 61 to 97: the empty filename is false, so it selects the prompts.\<close>

definition resolve :: "(string \<Rightarrow> int option) \<Rightarrow> filesystem \<Rightarrow> args \<Rightarrow> ('s, resolved) action" where
  "resolve to_int fs a =
     (let filename = choose_filename fs a
      in if filename \<noteq> [] then load_and_resolve fs filename a else interactive to_int a)"

section \<open>Authentication and the client (lines 99 to 118)\<close>

text \<open>
  Modelled from the spec: the class \<^verbatim>\<open>Auth\<close> of the module \<^verbatim>\<open>auth\<close>, which the script imports
  and calls as \<^verbatim>\<open>Auth()(host, username, password, aws_region, profile_name)\<close>, is not among
  the sources. The selection rule is the one of the specification's Authenticator,
  evaluated in order: a region that is set selects the signed-request strategy with that
  region and the profile (which may be empty); else a username that is set and not empty
  selects basic authentication with the username and the password; else no authentication.
\<close>

datatype auth_strategy =
    NoAuth
  | BasicAuth pyval pyval
  | AwsSignedRequest pyval "string option"

definition Auth :: "pyval \<Rightarrow> pyval \<Rightarrow> pyval \<Rightarrow> pyval \<Rightarrow> string option \<Rightarrow> auth_strategy" where
  "Auth host' username' password' aws_region' profile_name =
     (if aws_region' \<noteq> PNone then AwsSignedRequest aws_region' profile_name
      else if username' \<noteq> PNone \<and> username' \<noteq> PStr [] then BasicAuth username' password'
      else NoAuth)"

text \<open>The keyword arguments of \<^verbatim>\<open>Elasticsearch(...)\<close>; the connection class is a constant.\<close>

record es_client =
  host :: pyval
  port :: pyval
  timeout :: pyval
  use_ssl :: pyval
  verify_certs :: bool
  http_auth :: auth_strategy
  url_prefix :: pyval
  send_get_body_as :: pyval
  client_cert :: pyval
  ca_certs :: pyval
  client_key :: pyval

definition connect :: "args \<Rightarrow> resolved \<Rightarrow> es_client" where
  "connect a cfg =
     (let timeout = args.timeout a;
          http_auth = Auth (resolved.host cfg) (resolved.username cfg) (resolved.password cfg)
                        (resolved.aws_region cfg) (profile a)
      in \<lparr> host = resolved.host cfg, port = resolved.port cfg, timeout = timeout,
           use_ssl = resolved.use_ssl cfg, verify_certs = resolved.verify_certs cfg,
           http_auth = http_auth, url_prefix = resolved.url_prefix cfg,
           send_get_body_as = resolved.send_get_body_as cfg,
           client_cert = resolved.client_cert cfg, ca_certs = resolved.ca_certs cfg,
           client_key = resolved.client_key cfg \<rparr>)"

section \<open>The mappings (lines 120 to 136)\<close>

definition keyword :: json where
  "keyword = JObj [(''type'', JStr ''keyword'')]"

definition date :: json where
  "date = JObj [(''format'', JStr ''dateOptionalTime''), (''type'', JStr ''date'')]"

definition disabled_object :: json where
  "disabled_object = JObj [(''enabled'', JBool False), (''type'', JStr ''object'')]"

definition silence_mapping :: json where
  "silence_mapping =
     JObj [(''silence'', JObj [(''properties'', JObj
       [(''rule_name'', keyword), (''until'', date), (''@timestamp'', date)])])]"

definition ess_mapping :: json where
  "ess_mapping =
     JObj [(''elastalert_status'', JObj [(''properties'', JObj
       [(''rule_name'', keyword), (''@timestamp'', date)])])]"

definition es_mapping :: json where
  "es_mapping =
     JObj [(''elastalert'', JObj [(''properties'', JObj
       [(''rule_name'', keyword), (''@timestamp'', date), (''alert_time'', date),
        (''match_time'', date), (''match_body'', disabled_object),
        (''aggregate_id'', keyword)])])]"

definition past_mapping :: json where
  "past_mapping =
     JObj [(''past_elastalert'', JObj [(''properties'', JObj
       [(''rule_name'', keyword), (''match_body'', disabled_object), (''@timestamp'', date),
        (''aggregate_id'', keyword)])])]"

definition error_mapping :: json where
  "error_mapping =
     JObj [(''elastalert_error'', JObj [(''properties'', JObj
       [(''data'', disabled_object), (''@timestamp'', date)])])]"

section \<open>The index names (lines 138 to 143)\<close>

definition target_index :: "args \<Rightarrow> ('s, string) action" where
  "target_index a =
     and_then
       (case index a of
          Some s \<Rightarrow> return s
        | None \<Rightarrow> raw_input ''New index name? (Default elastalert_status) '')
       (\<lambda>index. return (if index = [] then ''elastalert_status'' else index))"

definition source_index :: "args \<Rightarrow> ('s, string) action" where
  "source_index a =
     (case old_index a of
        Some s \<Rightarrow> return s
      | None \<Rightarrow> raw_input ''Name of existing index to copy? (Default None) '')"

section \<open>Creating the indices (lines 145 to 169)\<close>

text \<open>Lines 150 to 169: the target index was not found.\<close>

definition create_all :: "('s \<Rightarrow> es_call \<Rightarrow> reply \<times> 's) \<Rightarrow> string \<Rightarrow> string \<Rightarrow> ('s, unit) action" where
  "create_all respond index' old_index' =
     and_then (request respond (Create ''elastalert'')) (\<lambda>_.
     and_then (request respond (Create ''elastalert_status'')) (\<lambda>_.
     and_then (request respond (Create ''elastalert_silence'')) (\<lambda>_.
     and_then (request respond (Create ''elastalert_error'')) (\<lambda>_.
     and_then (request respond (Create ''elastalert_past'')) (\<lambda>_.
     and_then (time_sleep 2) (\<lambda>_.
     and_then (request respond (PutMapping ''elastalert'' ''elastalert'' es_mapping)) (\<lambda>_.
     and_then (request respond
                 (PutMapping ''elastalert_status'' ''elastalert_status'' ess_mapping)) (\<lambda>_.
     and_then (request respond
                 (PutMapping ''elastalert_silence'' ''silence'' silence_mapping)) (\<lambda>_.
     and_then (request respond
                 (PutMapping ''elastalert_error'' ''elastalert_error'' error_mapping)) (\<lambda>_.
     and_then (request respond
                 (PutMapping ''elastalert_past'' ''past_elastalert'' past_mapping)) (\<lambda>_.
     and_then (print (''New index '' @ index' @ '' created'')) (\<lambda>_.
     and_then
       (if old_index' \<noteq> [] then
          and_then
            (print (''Copying all data from old index '' @ [CHR 0x27] @ old_index'
                    @ [CHR 0x27] @ '' to new index '' @ [CHR 0x27] @ index' @ [CHR 0x27]))
            (\<lambda>_. and_then (request respond (Reindex old_index' index')) (\<lambda>_. return ()))
        else return ())
       (\<lambda>_. print ''Done!'')))))))))))))"

text \<open>Lines 145 to 148, then lines 150 to 169.\<close>

definition provision :: "('s \<Rightarrow> es_call \<Rightarrow> reply \<times> 's) \<Rightarrow> string \<Rightarrow> string \<Rightarrow> ('s, unit) action" where
  "provision respond index' old_index' =
     and_then (request respond (Exists index')) (\<lambda>found.
       if found then print (''Index '' @ index' @ '' already exists. Skipping index creation.'')
       else create_all respond index' old_index')"

section \<open>The whole run\<close>

text \<open>
  Lines 54 to 143: everything \<^verbatim>\<open>main\<close> settles before it talks to the cluster, in the order
  in which it reads the terminal.
\<close>

definition settings ::
    "(string \<Rightarrow> int option) \<Rightarrow> filesystem \<Rightarrow> args \<Rightarrow> ('s, es_client \<times> string \<times> string) action" where
  "settings to_int fs a =
     and_then (resolve to_int fs a) (\<lambda>cfg.
     and_then (target_index a) (\<lambda>index.
     and_then (source_index a) (\<lambda>old_index.
       return (connect a cfg, index, old_index))))"

text \<open>
  The answers of the cluster may depend on the client that asks (its address, its
  credentials), so \<open>respond\<close> takes the client first.
\<close>

definition main ::
    "(string \<Rightarrow> int option) \<Rightarrow> (es_client \<Rightarrow> 's \<Rightarrow> es_call \<Rightarrow> reply \<times> 's) \<Rightarrow> environ
       \<Rightarrow> filesystem \<Rightarrow> cli_opt list \<Rightarrow> ('s, unit) action" where
  "main to_int respond env fs argv =
     (case parse_args to_int env argv of
        Inl e \<Rightarrow> raise e
      | Inr a \<Rightarrow>
          and_then (settings to_int fs a) (\<lambda>(es, index, old_index).
            provision (respond es) index old_index))"

text \<open>
  Lines 22 to 97 alone: the configuration a run resolves from the command line, the
  environment, the file system and the terminal.
\<close>

definition configuration ::
    "(string \<Rightarrow> int option) \<Rightarrow> environ \<Rightarrow> filesystem \<Rightarrow> cli_opt list \<Rightarrow> 's world
       \<Rightarrow> error + resolved" where
  "configuration to_int env fs argv w =
     (case parse_args to_int env argv of
        Inl e \<Rightarrow> Inl e
      | Inr a \<Rightarrow> fst (resolve to_int fs a w))"

section \<open>Notions used to state the properties\<close>

text \<open>
  What the user supplied on the command line for one option: the value of its last
  occurrence, if it occurs. The selector \<open>f\<close> picks the option.
\<close>

fun supplied :: "(cli_opt \<Rightarrow> 'a option) \<Rightarrow> cli_opt list \<Rightarrow> 'a option" where
  "supplied f [] = None"
| "supplied f (x # xs) = (case supplied f xs of Some v \<Rightarrow> Some v | None \<Rightarrow> f x)"

fun host_opt :: "cli_opt \<Rightarrow> string option" where
  "host_opt (OptHost s) = Some s"
| "host_opt x = None"

fun port_opt :: "cli_opt \<Rightarrow> string option" where
  "port_opt (OptPort s) = Some s"
| "port_opt x = None"

fun username_opt :: "cli_opt \<Rightarrow> string option" where
  "username_opt (OptUsername s) = Some s"
| "username_opt x = None"

fun password_opt :: "cli_opt \<Rightarrow> string option" where
  "password_opt (OptPassword s) = Some s"
| "password_opt x = None"

fun url_prefix_opt :: "cli_opt \<Rightarrow> string option" where
  "url_prefix_opt (OptUrlPrefix s) = Some s"
| "url_prefix_opt x = None"

fun ssl_opt :: "cli_opt \<Rightarrow> bool option" where
  "ssl_opt OptSsl = Some True"
| "ssl_opt OptNoSsl = Some False"
| "ssl_opt x = None"

fun verify_certs_opt :: "cli_opt \<Rightarrow> bool option" where
  "verify_certs_opt OptVerifyCerts = Some True"
| "verify_certs_opt OptNoVerifyCerts = Some False"
| "verify_certs_opt x = None"

text \<open>
  The value an option has after parsing when the command line may supply it and a variable
  of the environment is its default.
\<close>

definition given :: "'a option \<Rightarrow> 'a option \<Rightarrow> 'a option" where
  "given cli var = (case cli of Some v \<Rightarrow> Some v | None \<Rightarrow> var)"

text \<open>The five creation requests and the five mapping requests, in the order of the source.\<close>

definition creations :: "es_call list" where
  "creations =
     [Create ''elastalert'', Create ''elastalert_status'', Create ''elastalert_silence'',
      Create ''elastalert_error'', Create ''elastalert_past'']"

definition mappings :: "es_call list" where
  "mappings =
     [PutMapping ''elastalert'' ''elastalert'' es_mapping,
      PutMapping ''elastalert_status'' ''elastalert_status'' ess_mapping,
      PutMapping ''elastalert_silence'' ''silence'' silence_mapping,
      PutMapping ''elastalert_error'' ''elastalert_error'' error_mapping,
      PutMapping ''elastalert_past'' ''past_elastalert'' past_mapping]"

text \<open>Requests sent one after the other, the first exception ending the sequence.\<close>

fun requests :: "('s \<Rightarrow> es_call \<Rightarrow> reply \<times> 's) \<Rightarrow> es_call list \<Rightarrow> ('s, unit) action" where
  "requests respond [] = return ()"
| "requests respond (c # cs) = and_then (request respond c) (\<lambda>_. requests respond cs)"

text \<open>
  Everything a run does from line 150 on when no request raises, after it has found that
  the target index does not exist.
\<close>

definition script :: "string \<Rightarrow> string \<Rightarrow> event list" where
  "script index' old_index' =
     map Call creations @ [Sleep 2] @ map Call mappings
     @ [Print (''New index '' @ index' @ '' created'')]
     @ (if old_index' \<noteq> [] then
          [Print (''Copying all data from old index '' @ [CHR 0x27] @ old_index'
                  @ [CHR 0x27] @ '' to new index '' @ [CHR 0x27] @ index' @ [CHR 0x27]),
           Call (Reindex old_index' index')]
        else [])
     @ [Print ''Done!'']"

text \<open>An action that only prompts: it sends nothing to the cluster and prints no message.\<close>

definition only_prompts :: "('s, 'a) action \<Rightarrow> bool" where
  "only_prompts m =
     (\<forall>w. cluster (snd (m w)) = cluster w
          \<and> (\<exists>ps. trace (snd (m w)) = trace w @ map Prompt ps))"

text \<open>
  An action that follows a list of effects: when it returns, it has had exactly these
  effects, and every request among them was answered; when it raises, the exception is that
  of a request the cluster refused, and the action has had the effects up to that request
  and none after it. It reads nothing from the terminal.
\<close>

definition answered :: "('s \<Rightarrow> es_call \<Rightarrow> reply \<times> 's) \<Rightarrow> event list \<Rightarrow> bool" where
  "answered respond evs = (\<forall>c. Call c \<in> set evs \<longrightarrow> (\<exists>s b. fst (respond s c) = Returns b))"

definition follows ::
    "('s \<Rightarrow> es_call \<Rightarrow> reply \<times> 's) \<Rightarrow> ('s, 'a) action \<Rightarrow> event list \<Rightarrow> bool" where
  "follows respond m evs =
     (\<forall>w. case m w of
        (Inr x, w') \<Rightarrow>
          stdin w' = stdin w \<and> trace w' = trace w @ evs \<and> answered respond evs
      | (Inl e, w') \<Rightarrow>
          stdin w' = stdin w
          \<and> (\<exists>before c. e = ElasticsearchException c
                \<and> (\<exists>s. fst (respond s c) = Raises)
                \<and> trace w' = trace w @ before @ [Call c]
                \<and> prefix (before @ [Call c]) evs
                \<and> answered respond before))"

text \<open>
  The cluster along a run: the state it is in after it has answered the requests of a list
  one after the other, and whether it answers them all, refusing none of them in the state
  in which it receives it.
\<close>

fun state_after :: "('s \<Rightarrow> es_call \<Rightarrow> reply \<times> 's) \<Rightarrow> 's \<Rightarrow> es_call list \<Rightarrow> 's" where
  "state_after respond s [] = s"
| "state_after respond s (c # cs) = state_after respond (snd (respond s c)) cs"

fun accepts :: "('s \<Rightarrow> es_call \<Rightarrow> reply \<times> 's) \<Rightarrow> 's \<Rightarrow> es_call list \<Rightarrow> bool" where
  "accepts respond s [] = True"
| "accepts respond s (c # cs) =
     (fst (respond s c) \<noteq> Raises \<and> accepts respond (snd (respond s c)) cs)"

section \<open>Sample inputs\<close>

text \<open>
  An instance of \<^verbatim>\<open>int\<close> for the examples: on a string of decimal digits it is the number
  they write, and it rejects every other string (Python accepts some of those, such as a
  leading sign).
\<close>

definition digit :: "char \<Rightarrow> int option" where
  "digit c = map_of (zip ''0123456789'' [0, 1, 2, 3, 4, 5, 6, 7, 8, 9]) c"

fun digits :: "string \<Rightarrow> int \<Rightarrow> int option" where
  "digits [] n = Some n"
| "digits (c # cs) n = (case digit c of None \<Rightarrow> None | Some d \<Rightarrow> digits cs (10 * n + d))"

definition int_of_digits :: "string \<Rightarrow> int option" where
  "int_of_digits s = (if s = [] then None else digits s 0)"

text \<open>
  A cluster for the examples. Its state is the list of its indices. Creating an index that
  exists raises, as does a mapping for an index that does not exist or a copy from one;
  a copy creates its target when needed.
\<close>

fun sample_cluster :: "es_client \<Rightarrow> string list \<Rightarrow> es_call \<Rightarrow> reply \<times> string list" where
  "sample_cluster es s (Exists i) = (Returns (i \<in> set s), s)"
| "sample_cluster es s (Create i) = (if i \<in> set s then (Raises, s) else (Returns True, s @ [i]))"
| "sample_cluster es s (PutMapping i d b) = (if i \<in> set s then (Returns True, s) else (Raises, s))"
| "sample_cluster es s (Reindex src dst) =
     (if src \<in> set s then (Returns True, if dst \<in> set s then s else s @ [dst]) else (Raises, s))"

definition no_environ :: environ where
  "no_environ =
     \<lparr> ES_HOST = None, ES_PORT = None, ES_USERNAME = None, ES_PASSWORD = None,
       ES_USE_SSL = None \<rparr>"

text \<open>A terminal with the given lines to read, a cluster in the given state, nothing done yet.\<close>

definition start :: "string list \<Rightarrow> 's \<Rightarrow> 's world" where
  "start lines s = \<lparr> stdin = lines, cluster = s, trace = [] \<rparr>"

text \<open>A command line that answers every question of the prompts but the two index names.\<close>

definition local_argv :: "cli_opt list" where
  "local_argv = [OptHost ''localhost'', OptPort ''9200'', OptNoSsl, OptNoAuth, OptUrlPrefix []]"

text \<open>A configuration file that turns TLS on and says nothing about certificates.\<close>

definition ssl_files :: filesystem where
  "ssl_files = [''config.yaml'' \<mapsto> Mapping [''use_ssl'' \<mapsto> PBool True]]"

text \<open>
  A configuration file with an address, credentials and TLS settings, and environments that
  set some of the five variables.
\<close>

definition full_data :: "string \<rightharpoonup> pyval" where
  "full_data =
     [''es_host'' \<mapsto> PStr ''filehost'', ''es_port'' \<mapsto> PInt 9200,
      ''es_username'' \<mapsto> PStr ''fileuser'', ''use_ssl'' \<mapsto> PBool True,
      ''verify_certs'' \<mapsto> PBool False]"

definition full_files :: filesystem where
  "full_files = [''config.yaml'' \<mapsto> Mapping full_data]"

definition user_environ :: environ where
  "user_environ = no_environ\<lparr>ES_USERNAME := Some ''envuser''\<rparr>"

definition zero_port_environ :: environ where
  "zero_port_environ = no_environ\<lparr>ES_PORT := Some ''0''\<rparr>"

definition set_environ :: environ where
  "set_environ =
     \<lparr> ES_HOST = Some ''envhost'', ES_PORT = Some ''9300'', ES_USERNAME = Some ''envuser'',
       ES_PASSWORD = Some ''envpass'', ES_USE_SSL = Some False \<rparr>"

text \<open>A namespace that names another configuration file, and a file that sets a region.\<close>

definition other_args :: args where
  "other_args = (defaults no_environ)\<lparr>config := ''other.yaml''\<rparr>"

definition aws_file :: "string \<rightharpoonup> pyval" where
  "aws_file = [''es_host'' \<mapsto> PStr ''search.example.org'', ''es_username'' \<mapsto> PStr ''admin'',
               ''es_password'' \<mapsto> PStr ''secret'', ''aws_region'' \<mapsto> PStr ''us-east-1'']"

text \<open>An environment whose variables are set to the empty string, the port to zero.\<close>

definition blank_environ :: environ where
  "blank_environ =
     \<lparr> ES_HOST = Some [], ES_PORT = Some ''0'', ES_USERNAME = Some [],
       ES_PASSWORD = Some [], ES_USE_SSL = None \<rparr>"

section \<open>Sequencing and prompting\<close>

lemma and_then_return [simp]: "and_then (return x) f = f x"
  by (rule ext) (simp add: and_then_def return_def)

lemma and_then_raise [simp]: "and_then (raise e) f = raise e"
  by (rule ext) (simp add: and_then_def raise_def)

lemma and_then_assoc: "and_then (and_then m f) g = and_then m (\<lambda>x. and_then (f x) g)"
  by (rule ext) (simp add: and_then_def split: prod.splits sum.splits)

lemma and_then_Inr: "m w = (Inr x, w1) \<Longrightarrow> and_then m f w = f x w1"
  by (simp add: and_then_def)

lemma and_then_Inl: "m w = (Inl e, w1) \<Longrightarrow> and_then m f w = (Inl e, w1)"
  by (simp add: and_then_def)

lemma only_prompts_return: "only_prompts (return x)"
  by (simp add: only_prompts_def return_def exI [of _ "[]"])

lemma only_prompts_raise: "only_prompts (raise e)"
  by (simp add: only_prompts_def raise_def exI [of _ "[]"])

lemma only_prompts_raw_input: "only_prompts (raw_input p)"
  unfolding only_prompts_def
proof (intro allI conjI)
  fix w :: "'a world"
  show "cluster (snd (raw_input p w)) = cluster w"
    by (simp add: raw_input_def split: list.splits)
  have "trace (snd (raw_input p w)) = trace w @ map Prompt [p]"
    by (simp add: raw_input_def split: list.splits)
  then show "\<exists>ps. trace (snd (raw_input p w)) = trace w @ map Prompt ps" ..
qed

lemma only_prompts_getpass: "only_prompts (getpass p)"
  by (simp add: getpass_def only_prompts_raw_input)

lemma only_prompts_and_then:
  assumes m: "only_prompts m" and f: "\<And>x. only_prompts (f x)"
  shows "only_prompts (and_then m f)"
  unfolding only_prompts_def
proof (intro allI)
  fix w
  obtain r w1 where mw: "m w = (r, w1)" by (cases "m w")
  from m mw obtain ps where 1: "cluster w1 = cluster w" "trace w1 = trace w @ map Prompt ps"
    unfolding only_prompts_def by (metis snd_conv)
  show "cluster (snd (and_then m f w)) = cluster w
      \<and> (\<exists>ps. trace (snd (and_then m f w)) = trace w @ map Prompt ps)"
  proof (cases r)
    case (Inl e)
    with mw 1 show ?thesis by (auto simp: and_then_def)
  next
    case (Inr x)
    from f [of x] obtain qs where 2: "cluster (snd (f x w1)) = cluster w1"
        "trace (snd (f x w1)) = trace w1 @ map Prompt qs"
      unfolding only_prompts_def by blast
    have "trace (snd (f x w1)) = trace w @ map Prompt (ps @ qs)"
      using 1 2 by simp
    then have "\<exists>ps. trace (snd (f x w1)) = trace w @ map Prompt ps" ..
    moreover have "and_then m f w = f x w1"
      using Inr mw by (simp add: and_then_def)
    ultimately show ?thesis using 1 2 by simp
  qed
qed

lemma only_prompts_option:
  "only_prompts n \<Longrightarrow> (\<And>x. only_prompts (s x)) \<Longrightarrow> only_prompts (case_option n s v)"
  by (cases v) simp_all

lemma only_prompts_if:
  "only_prompts m \<Longrightarrow> only_prompts n \<Longrightarrow> only_prompts (if c then m else n)"
  by simp

lemma only_prompts_prod: "(\<And>x y. only_prompts (f x y)) \<Longrightarrow> only_prompts (case_prod f p)"
  by (cases p) simp

lemmas only_prompts_intros =
  only_prompts_and_then only_prompts_option only_prompts_if only_prompts_prod
  only_prompts_return only_prompts_raise only_prompts_raw_input only_prompts_getpass

lemma only_prompts_interactive: "only_prompts (interactive to_int a)"
  unfolding interactive_def Let_def by (intro only_prompts_intros)

lemma only_prompts_load: "only_prompts (load_and_resolve fs f a)"
  unfolding load_and_resolve_def
  by (simp add: only_prompts_return only_prompts_raise split: option.splits yaml_doc.splits)

lemma only_prompts_resolve: "only_prompts (resolve to_int fs a)"
  unfolding resolve_def Let_def
  by (intro only_prompts_if only_prompts_load only_prompts_interactive)

lemma only_prompts_settings: "only_prompts (settings to_int fs a)"
  unfolding settings_def target_index_def source_index_def
  by (intro only_prompts_intros only_prompts_resolve)

lemma settings_world:
  assumes "settings to_int fs a w = (r, w1)"
  shows "cluster w1 = cluster w \<and> (\<exists>ps. trace w1 = trace w @ map Prompt ps)"
  using only_prompts_settings [of to_int fs a] assms unfolding only_prompts_def
  by (metis snd_conv)

lemma main_provision:
  assumes "parse_args to_int env argv = Inr a"
      and "settings to_int fs a w = (Inr (es, idx, old), w1)"
  shows "main to_int respond env fs argv w = provision (respond es) idx old w1"
  using assms by (simp add: main_def and_then_def)

section \<open>What the parser stores\<close>

lemma take_action_fields:
  assumes "take_action to_int x ns = Inr ns'"
  shows "args.host ns' = given (host_opt x) (args.host ns)"
    and "args.port ns' = (case port_opt x of Some s \<Rightarrow> to_int s | None \<Rightarrow> args.port ns)"
    and "args.username ns' = given (username_opt x) (args.username ns)"
    and "args.password ns' = given (password_opt x) (args.password ns)"
    and "args.url_prefix ns' = given (url_prefix_opt x) (args.url_prefix ns)"
    and "ssl ns' = given (ssl_opt x) (ssl ns)"
    and "args.verify_certs ns' = given (verify_certs_opt x) (args.verify_certs ns)"
  using assms by (cases x; auto simp: given_def split: option.splits)+

lemma consume_Cons_Inr:
  assumes "consume to_int (x # xs) ns = Inr a"
  obtains ns' where "take_action to_int x ns = Inr ns'" and "consume to_int xs ns' = Inr a"
  using assms by (cases "take_action to_int x ns") auto

lemma given_given: "given c (given c' v) = given (given c c') v"
  by (simp add: given_def split: option.splits)

lemma supplied_Cons: "supplied f (x # xs) = given (supplied f xs) (f x)"
  by (simp add: given_def)

lemma consume_fields:
  assumes "consume to_int argv ns = Inr a"
  shows "args.host a = given (supplied host_opt argv) (args.host ns)
       \<and> args.port a = (case supplied port_opt argv of Some s \<Rightarrow> to_int s | None \<Rightarrow> args.port ns)
       \<and> args.username a = given (supplied username_opt argv) (args.username ns)
       \<and> args.password a = given (supplied password_opt argv) (args.password ns)
       \<and> args.url_prefix a = given (supplied url_prefix_opt argv) (args.url_prefix ns)
       \<and> ssl a = given (supplied ssl_opt argv) (ssl ns)
       \<and> args.verify_certs a = given (supplied verify_certs_opt argv) (args.verify_certs ns)"
  using assms
proof (induction argv arbitrary: ns)
  case Nil
  then show ?case by (simp add: given_def)
next
  case (Cons x xs)
  from Cons.prems obtain ns' where 1: "take_action to_int x ns = Inr ns'"
    and 2: "consume to_int xs ns' = Inr a"
    by (rule consume_Cons_Inr)
  note ih = Cons.IH [OF 2]
  note st = take_action_fields [OF 1]
  have "args.port a = (case supplied port_opt (x # xs) of Some s \<Rightarrow> to_int s | None \<Rightarrow> args.port ns)"
    using ih st(2) by (simp split: option.splits)
  then show ?case
    using ih st by (simp only: supplied_Cons given_given)
qed

lemma list_ex_is_port: "list_ex is_port argv \<longleftrightarrow> supplied port_opt argv \<noteq> None"
proof (induction argv)
  case Nil
  show ?case by simp
next
  case (Cons x xs)
  then show ?case by (cases x) (auto split: option.splits)
qed

lemma parse_args_fields:
  assumes "parse_args to_int env argv = Inr a"
  shows "args.host a = given (supplied host_opt argv) (ES_HOST env)"
    and "args.port a = Option.bind (given (supplied port_opt argv) (ES_PORT env)) to_int"
    and "args.username a = given (supplied username_opt argv) (ES_USERNAME env)"
    and "args.password a = given (supplied password_opt argv) (ES_PASSWORD env)"
    and "args.url_prefix a = supplied url_prefix_opt argv"
    and "ssl a = given (supplied ssl_opt argv) (ES_USE_SSL env)"
    and "args.verify_certs a = supplied verify_certs_opt argv"
proof -
  from assms obtain ns where c: "consume to_int argv (defaults env) = Inr ns"
    by (cases "consume to_int argv (defaults env)") (auto simp: parse_args_def)
  note f = consume_fields [OF c]
  have same: "args.host a = args.host ns" "args.username a = args.username ns"
    "args.password a = args.password ns" "args.url_prefix a = args.url_prefix ns"
    "ssl a = ssl ns" "args.verify_certs a = args.verify_certs ns"
    using assms c by (auto simp: parse_args_def split: if_splits option.splits)
  show "args.host a = given (supplied host_opt argv) (ES_HOST env)"
    using f same by (simp add: defaults_def)
  show "args.username a = given (supplied username_opt argv) (ES_USERNAME env)"
    using f same by (simp add: defaults_def)
  show "args.password a = given (supplied password_opt argv) (ES_PASSWORD env)"
    using f same by (simp add: defaults_def)
  show "args.url_prefix a = supplied url_prefix_opt argv"
    using f same by (simp add: defaults_def given_def split: option.splits)
  show "ssl a = given (supplied ssl_opt argv) (ES_USE_SSL env)"
    using f same by (simp add: defaults_def)
  show "args.verify_certs a = supplied verify_certs_opt argv"
    using f same by (simp add: defaults_def given_def split: option.splits)
  show "args.port a = Option.bind (given (supplied port_opt argv) (ES_PORT env)) to_int"
  proof (cases "supplied port_opt argv")
    case None
    then have "\<not> list_ex is_port argv" by (simp add: list_ex_is_port)
    moreover have "args.port ns = None" using f None by (simp add: defaults_def)
    ultimately show ?thesis
      using assms c None
      by (auto simp: parse_args_def given_def split: option.splits)
  next
    case (Some s)
    then have "list_ex is_port argv" by (simp add: list_ex_is_port)
    then have "a = ns" using assms c by (simp add: parse_args_def)
    then show ?thesis using f Some by (simp add: given_def)
  qed
qed

lemma configuration_file:
  assumes "parse_args to_int env argv = Inr a"
      and "choose_filename fs a \<noteq> []"
      and "fs (choose_filename fs a) = Some (Mapping data)"
  shows "configuration to_int env fs argv w = Inr (from_file a data)"
  using assms by (simp add: configuration_def resolve_def load_and_resolve_def return_def)

lemma supplied_Cons_None: "supplied f (x # xs) = None \<longleftrightarrow> supplied f xs = None \<and> f x = None"
  by (cases "supplied f xs") simp_all

lemma supplied_None: "supplied f argv = None \<longleftrightarrow> (\<forall>x\<in>set argv. f x = None)"
proof (induction argv)
  case Nil
  show ?case by simp
next
  case (Cons x xs)
  have "supplied f (x # xs) = None \<longleftrightarrow> supplied f xs = None \<and> f x = None"
    by (rule supplied_Cons_None)
  also have "\<dots> \<longleftrightarrow> (\<forall>y\<in>set xs. f y = None) \<and> f x = None"
    using Cons.IH by simp
  also have "\<dots> \<longleftrightarrow> (\<forall>y\<in>set (x # xs). f y = None)"
    by auto
  finally show ?case .
qed

lemma no_verify_flag:
  assumes "OptVerifyCerts \<notin> set argv" and "OptNoVerifyCerts \<notin> set argv"
  shows "supplied verify_certs_opt argv = None"
  unfolding supplied_None
proof
  fix x
  assume "x \<in> set argv"
  with assms have "x \<noteq> OptVerifyCerts" "x \<noteq> OptNoVerifyCerts" by auto
  then show "verify_certs_opt x = None" by (cases x) simp_all
qed

lemma supplied_in_set: "supplied f argv = Some v \<Longrightarrow> \<exists>x\<in>set argv. f x = Some v"
proof (induction argv)
  case Nil
  then show ?case by simp
next
  case (Cons x xs)
  show ?case
  proof (cases "supplied f xs")
    case None
    with Cons.prems have "f x = Some v" by simp
    then show ?thesis by simp
  next
    case (Some u)
    with Cons.prems have "supplied f xs = Some v" by simp
    from Cons.IH [OF this] show ?thesis by auto
  qed
qed

lemma no_ssl_supplied:
  assumes "supplied ssl_opt argv = Some False"
  shows "OptNoSsl \<in> set argv"
proof -
  from supplied_in_set [OF assms] obtain x where x: "x \<in> set argv" "ssl_opt x = Some False"
    by blast
  from x(2) have "x = OptNoSsl" by (cases x) simp_all
  with x(1) show ?thesis by simp
qed

lemma consume_append:
  "consume to_int (xs @ ys) ns =
     (case consume to_int xs ns of Inl e \<Rightarrow> Inl e | Inr ns' \<Rightarrow> consume to_int ys ns')"
proof (induction xs arbitrary: ns)
  case Nil
  show ?case by simp
next
  case (Cons x xs)
  show ?case
    by (cases "take_action to_int x ns") (simp_all add: Cons.IH)
qed

lemma take_action_host_update:
  "host_opt x = None \<Longrightarrow> take_action to_int x (ns\<lparr>args.host := h\<rparr>) =
     (case take_action to_int x ns of Inl e \<Rightarrow> Inl e | Inr a \<Rightarrow> Inr (a\<lparr>args.host := h\<rparr>))"
  by (cases x) (simp_all split: option.splits)

lemma take_action_username_update:
  "username_opt x = None \<Longrightarrow> take_action to_int x (ns\<lparr>args.username := h\<rparr>) =
     (case take_action to_int x ns of Inl e \<Rightarrow> Inl e | Inr a \<Rightarrow> Inr (a\<lparr>args.username := h\<rparr>))"
  by (cases x) (simp_all split: option.splits)

lemma take_action_password_update:
  "password_opt x = None \<Longrightarrow> take_action to_int x (ns\<lparr>args.password := h\<rparr>) =
     (case take_action to_int x ns of Inl e \<Rightarrow> Inl e | Inr a \<Rightarrow> Inr (a\<lparr>args.password := h\<rparr>))"
  by (cases x) (simp_all split: option.splits)

lemma take_action_ssl_update:
  "ssl_opt x = None \<Longrightarrow> take_action to_int x (ns\<lparr>ssl := h\<rparr>) =
     (case take_action to_int x ns of Inl e \<Rightarrow> Inl e | Inr a \<Rightarrow> Inr (a\<lparr>ssl := h\<rparr>))"
  by (cases x) (simp_all split: option.splits)

lemma consume_host_update:
  "supplied host_opt argv = None \<Longrightarrow> consume to_int argv (ns\<lparr>args.host := h\<rparr>) =
     (case consume to_int argv ns of Inl e \<Rightarrow> Inl e | Inr a \<Rightarrow> Inr (a\<lparr>args.host := h\<rparr>))"
proof (induction argv arbitrary: ns)
  case Nil
  show ?case by simp
next
  case (Cons x xs)
  from Cons.prems have x: "host_opt x = None" and xs: "supplied host_opt xs = None"
    unfolding supplied_Cons_None by simp_all
  show ?case
    by (cases "take_action to_int x ns") (simp_all add: take_action_host_update [OF x] Cons.IH [OF xs])
qed

lemma consume_username_update:
  "supplied username_opt argv = None \<Longrightarrow> consume to_int argv (ns\<lparr>args.username := h\<rparr>) =
     (case consume to_int argv ns of Inl e \<Rightarrow> Inl e | Inr a \<Rightarrow> Inr (a\<lparr>args.username := h\<rparr>))"
proof (induction argv arbitrary: ns)
  case Nil
  show ?case by simp
next
  case (Cons x xs)
  from Cons.prems have x: "username_opt x = None" and xs: "supplied username_opt xs = None"
    unfolding supplied_Cons_None by simp_all
  show ?case
    by (cases "take_action to_int x ns")
      (simp_all add: take_action_username_update [OF x] Cons.IH [OF xs])
qed

lemma consume_password_update:
  "supplied password_opt argv = None \<Longrightarrow> consume to_int argv (ns\<lparr>args.password := h\<rparr>) =
     (case consume to_int argv ns of Inl e \<Rightarrow> Inl e | Inr a \<Rightarrow> Inr (a\<lparr>args.password := h\<rparr>))"
proof (induction argv arbitrary: ns)
  case Nil
  show ?case by simp
next
  case (Cons x xs)
  from Cons.prems have x: "password_opt x = None" and xs: "supplied password_opt xs = None"
    unfolding supplied_Cons_None by simp_all
  show ?case
    by (cases "take_action to_int x ns")
      (simp_all add: take_action_password_update [OF x] Cons.IH [OF xs])
qed

lemma consume_ssl_update:
  "supplied ssl_opt argv = None \<Longrightarrow> consume to_int argv (ns\<lparr>ssl := h\<rparr>) =
     (case consume to_int argv ns of Inl e \<Rightarrow> Inl e | Inr a \<Rightarrow> Inr (a\<lparr>ssl := h\<rparr>))"
proof (induction argv arbitrary: ns)
  case Nil
  show ?case by simp
next
  case (Cons x xs)
  from Cons.prems have x: "ssl_opt x = None" and xs: "supplied ssl_opt xs = None"
    unfolding supplied_Cons_None by simp_all
  show ?case
    by (cases "take_action to_int x ns") (simp_all add: take_action_ssl_update [OF x] Cons.IH [OF xs])
qed

lemma list_ex_is_port_append: "\<not> is_port x \<Longrightarrow> list_ex is_port (argv @ [x]) = list_ex is_port argv"
  by simp

lemma host_from_environment:
  assumes "supplied host_opt argv = None"
  shows "parse_args to_int (env\<lparr>ES_HOST := Some v\<rparr>) argv
       = parse_args to_int (env\<lparr>ES_HOST := None\<rparr>) (argv @ [OptHost v])"
proof -
  have d: "defaults (env\<lparr>ES_HOST := h\<rparr>) = (defaults env)\<lparr>args.host := h\<rparr>" for h
    by (simp add: defaults_def)
  show ?thesis
    by (cases "consume to_int argv (defaults env)")
      (simp_all add: parse_args_def d consume_append consume_host_update [OF assms]
        split: option.splits)
qed

lemma username_from_environment:
  assumes "supplied username_opt argv = None"
  shows "parse_args to_int (env\<lparr>ES_USERNAME := Some v\<rparr>) argv
       = parse_args to_int (env\<lparr>ES_USERNAME := None\<rparr>) (argv @ [OptUsername v])"
proof -
  have d: "defaults (env\<lparr>ES_USERNAME := h\<rparr>) = (defaults env)\<lparr>args.username := h\<rparr>" for h
    by (simp add: defaults_def)
  show ?thesis
    by (cases "consume to_int argv (defaults env)")
      (simp_all add: parse_args_def d consume_append consume_username_update [OF assms]
        split: option.splits)
qed

lemma password_from_environment:
  assumes "supplied password_opt argv = None"
  shows "parse_args to_int (env\<lparr>ES_PASSWORD := Some v\<rparr>) argv
       = parse_args to_int (env\<lparr>ES_PASSWORD := None\<rparr>) (argv @ [OptPassword v])"
proof -
  have d: "defaults (env\<lparr>ES_PASSWORD := h\<rparr>) = (defaults env)\<lparr>args.password := h\<rparr>" for h
    by (simp add: defaults_def)
  show ?thesis
    by (cases "consume to_int argv (defaults env)")
      (simp_all add: parse_args_def d consume_append consume_password_update [OF assms]
        split: option.splits)
qed

lemma ssl_from_environment:
  assumes "supplied ssl_opt argv = None"
  shows "parse_args to_int (env\<lparr>ES_USE_SSL := Some b\<rparr>) argv
       = parse_args to_int (env\<lparr>ES_USE_SSL := None\<rparr>) (argv @ [if b then OptSsl else OptNoSsl])"
proof -
  have d: "defaults (env\<lparr>ES_USE_SSL := h\<rparr>) = (defaults env)\<lparr>ssl := h\<rparr>" for h
    by (simp add: defaults_def)
  show ?thesis
    by (cases "consume to_int argv (defaults env)")
      (simp_all add: parse_args_def d consume_append consume_ssl_update [OF assms]
        split: option.splits)
qed

lemma port_from_environment:
  assumes "supplied port_opt argv = None"
  shows "parse_args to_int (env\<lparr>ES_PORT := Some v\<rparr>) argv
       = parse_args to_int (env\<lparr>ES_PORT := None\<rparr>) (argv @ [OptPort v])"
proof -
  have d: "defaults (env\<lparr>ES_PORT := h\<rparr>) = defaults env" for h
    by (simp add: defaults_def)
  have n: "\<not> list_ex is_port argv"
    using assms by (simp add: list_ex_is_port)
  show ?thesis
    by (cases "consume to_int argv (defaults env)")
      (simp_all add: parse_args_def d consume_append n split: option.splits)
qed

lemmas run_defs =
  main_def parse_args_def defaults_def no_environ_def local_argv_def int_of_digits_def digit_def
  settings_def resolve_def choose_filename_def isfile_def interactive_def and_then_def
  return_def raise_def str_or_def opt_str_def target_index_def source_index_def provision_def
  create_all_def   request_def print_def time_sleep_def start_def connect_def raw_input_def getpass_def

section \<open>Which configuration file is read\<close>

text \<open>
  C8. Config-file mode selection: if the fixed well-known file \<^verbatim>\<open>config.yaml\<close> of the working
  directory exists, it is the one read, even when the user named another path with
  \<^verbatim>\<open>--config\<close>; otherwise the path the user named is read if it exists; if neither file
  exists, the configuration is resolved from the command line and the prompts alone.
\<close>

theorem config_file_selection:
  "(isfile fs ''config.yaml'' \<longrightarrow>
      choose_filename fs a = ''config.yaml''
      \<and> resolve to_int fs a w = load_and_resolve fs ''config.yaml'' a w)
   \<and> (\<not> isfile fs ''config.yaml'' \<and> isfile fs (config a) \<longrightarrow>
      choose_filename fs a = config a
      \<and> resolve to_int fs a w = load_and_resolve fs (config a) a w)
   \<and> (\<not> isfile fs ''config.yaml'' \<and> \<not> isfile fs (config a) \<longrightarrow>
      choose_filename fs a = []
      \<and> resolve to_int fs a w = interactive to_int a w)"
  by (auto simp: resolve_def choose_filename_def isfile_def)

theorem config_file_selection_witness:
  "isfile [''config.yaml'' \<mapsto> NotMapping, ''other.yaml'' \<mapsto> Unparsable] ''config.yaml''
   \<and> resolve int_of_digits [''config.yaml'' \<mapsto> NotMapping, ''other.yaml'' \<mapsto> Unparsable]
         other_args (start [] ())
       = (Inl AttributeError, start [] ())
   \<and> \<not> isfile [''other.yaml'' \<mapsto> Unparsable] ''config.yaml''
   \<and> isfile [''other.yaml'' \<mapsto> Unparsable] (config other_args)
   \<and> resolve int_of_digits [''other.yaml'' \<mapsto> Unparsable] other_args (start [] ())
       = (Inl YAMLError, start [] ())
   \<and> \<not> isfile Map.empty ''config.yaml'' \<and> \<not> isfile Map.empty (config other_args)
   \<and> resolve int_of_digits Map.empty other_args (start [] ())
       = (Inl EOFError, \<lparr>stdin = [], cluster = (), trace = [Prompt ''Enter Elasticsearch host: '']\<rparr>)"
proof -
  let ?both = "[''config.yaml'' \<mapsto> NotMapping, ''other.yaml'' \<mapsto> Unparsable]"
  let ?one = "[''other.yaml'' \<mapsto> Unparsable]"
  let ?w = "start [] ()"
  have 1: "isfile ?both ''config.yaml''"
    and 2: "\<not> isfile ?one ''config.yaml'' \<and> isfile ?one (config other_args)"
    and 3: "\<not> isfile Map.empty ''config.yaml'' \<and> \<not> isfile Map.empty (config other_args)"
    by (simp_all add: isfile_def other_args_def)
  have 4: "load_and_resolve ?both ''config.yaml'' other_args ?w = (Inl AttributeError, ?w)"
    and 5: "load_and_resolve ?one (config other_args) other_args ?w = (Inl YAMLError, ?w)"
    by (simp_all add: load_and_resolve_def raise_def other_args_def)
  have 6: "interactive int_of_digits other_args ?w
      = (Inl EOFError, \<lparr>stdin = [], cluster = (), trace = [Prompt ''Enter Elasticsearch host: '']\<rparr>)"
    by (simp add: interactive_def other_args_def defaults_def no_environ_def str_or_def
        opt_str_def and_then_def raw_input_def start_def)
  from 1 2 3 4 5 6
    config_file_selection [where fs = ?both and a = other_args and to_int = int_of_digits and w = ?w]
    config_file_selection [where fs = ?one and a = other_args and to_int = int_of_digits and w = ?w]
    config_file_selection [where fs = Map.empty and a = other_args and to_int = int_of_digits and w = ?w]
  show ?thesis by simp
qed

section \<open>The authentication attached to the client\<close>

text \<open>
  C5. For every resolved configuration in which the region is set, the authentication
  strategy attached to the client is the signed-request strategy built from that region and
  the profile given on the command line; it is never basic authentication, even when a
  username is set as well.
\<close>

theorem aws_region_selects_signed_requests:
  assumes "resolved.aws_region cfg \<noteq> PNone"
  shows "http_auth (connect a cfg) = AwsSignedRequest (resolved.aws_region cfg) (profile a)
         \<and> (\<forall>u p. http_auth (connect a cfg) \<noteq> BasicAuth u p)"
  using assms by (simp add: connect_def Auth_def)

theorem aws_region_selects_signed_requests_witness:
  "resolved.aws_region (from_file other_args aws_file) \<noteq> PNone
   \<and> resolved.username (from_file other_args aws_file) = PStr ''admin''
   \<and> http_auth (connect other_args (from_file other_args aws_file))
       = AwsSignedRequest (PStr ''us-east-1'') None"
proof -
  have 1: "resolved.aws_region (from_file other_args aws_file) \<noteq> PNone"
    by (simp add: from_file_def aws_file_def dict_get_def)
  have 2: "resolved.aws_region (from_file other_args aws_file) = PStr ''us-east-1''"
    "resolved.username (from_file other_args aws_file) = PStr ''admin''"
    "profile other_args = None"
    by (simp_all add: from_file_def aws_file_def dict_get_def other_args_def defaults_def
        no_environ_def str_or_def)
  from aws_region_selects_signed_requests [OF 1, of other_args] 1 2
  show ?thesis by simp
qed

section \<open>A target index that exists\<close>

text \<open>
  C2. For every run in which the resolved target index already exists in the cluster (the
  existence request returns true), the run sends no creation, mapping or copy request,
  whether or not an old index was given: after the prompts, its only effects are the
  existence request and the message that the index already exists and creation is skipped,
  and it ends without an exception.
\<close>

theorem existing_index_skipped:
  assumes "parse_args to_int env argv = Inr a"
      and "settings to_int fs a w = (Inr (es, idx, old), w1)"
      and "fst (respond es (cluster w) (Exists idx)) = Returns True"
  shows "fst (main to_int respond env fs argv w) = Inr ()
         \<and> trace (snd (main to_int respond env fs argv w))
             = trace w1 @ [Call (Exists idx),
                 Print (''Index '' @ idx @ '' already exists. Skipping index creation.'')]
         \<and> (\<exists>ps. trace w1 = trace w @ map Prompt ps)"
proof -
  from settings_world [OF assms(2)] obtain ps
    where c: "cluster w1 = cluster w" and t: "trace w1 = trace w @ map Prompt ps"
    by blast
  obtain s' where r: "respond es (cluster w1) (Exists idx) = (Returns True, s')"
    using assms(3) c by (cases "respond es (cluster w) (Exists idx)") simp
  have "main to_int respond env fs argv w = provision (respond es) idx old w1"
    by (rule main_provision [OF assms(1,2)])
  also have "\<dots> = (Inr (), w1\<lparr>cluster := s',
      trace := trace w1 @ [Call (Exists idx),
        Print (''Index '' @ idx @ '' already exists. Skipping index creation.'')]\<rparr>)"
    using r by (simp add: provision_def and_then_def request_def print_def)
  finally show ?thesis using t by auto
qed

theorem existing_index_skipped_witness:
  "parse_args int_of_digits no_environ (local_argv @ [OptIndex ''foo'', OptOldIndex ''bar''])
     = Inr ((defaults no_environ)\<lparr>args.host := Some ''localhost'', args.port := Some 9200,
          ssl := Some False, no_auth := Some True, args.url_prefix := Some [],
          index := Some ''foo'', old_index := Some ''bar''\<rparr>)
   \<and> (case fst (settings int_of_digits Map.empty
          ((defaults no_environ)\<lparr>args.host := Some ''localhost'', args.port := Some 9200,
             ssl := Some False, no_auth := Some True, args.url_prefix := Some [],
             index := Some ''foo'', old_index := Some ''bar''\<rparr>) (start [] [''foo''])) of
         Inl e \<Rightarrow> False
       | Inr (es, idx, old) \<Rightarrow>
           idx = ''foo'' \<and> old = ''bar''
           \<and> fst (sample_cluster es (cluster (start [] [''foo''])) (Exists idx)) = Returns True)
   \<and> fst (main int_of_digits sample_cluster no_environ Map.empty
        (local_argv @ [OptIndex ''foo'', OptOldIndex ''bar'']) (start [] [''foo''])) = Inr ()
   \<and> trace (snd (main int_of_digits sample_cluster no_environ Map.empty
        (local_argv @ [OptIndex ''foo'', OptOldIndex ''bar'']) (start [] [''foo''])))
      = [Call (Exists ''foo''), Print ''Index foo already exists. Skipping index creation.'']"
proof -
  let ?argv = "local_argv @ [OptIndex ''foo'', OptOldIndex ''bar'']"
  let ?a = "(defaults no_environ)\<lparr>args.host := Some ''localhost'', args.port := Some 9200,
          ssl := Some False, no_auth := Some True, args.url_prefix := Some [],
          index := Some ''foo'', old_index := Some ''bar''\<rparr>"
  let ?w = "start [] [''foo'']"
  have 1: "parse_args int_of_digits no_environ ?argv = Inr ?a"
    by (simp add: run_defs)
  obtain es0 where 2: "settings int_of_digits Map.empty ?a ?w = (Inr (es0, ''foo'', ''bar''), ?w)"
    by (simp add: run_defs)
  have 3: "fst (sample_cluster es0 (cluster ?w) (Exists ''foo'')) = Returns True"
    by (simp add: start_def)
  from existing_index_skipped [of int_of_digits no_environ ?argv ?a Map.empty ?w es0 "''foo''"
      "''bar''" ?w sample_cluster, OF 1 2 3] 1 2
  show ?thesis by (simp add: start_def)
qed

section \<open>The name of the target index\<close>

text \<open>
  A blank answer that is not empty is kept: the script tests the answer for emptiness and
  does not strip it. Here the answer is a single space.
\<close>

theorem blank_index_answer_counterexample:
  "index (defaults no_environ) = None
   \<and> fst (target_index (defaults no_environ) (start ['' ''] ())) = Inr '' ''"
  by (simp add: target_index_def defaults_def start_def and_then_def raw_input_def return_def)

lemma target_index_prompted:
  assumes "index a = None" and "stdin w = l # rest"
  shows "fst (target_index a w) = Inr (if l = [] then ''elastalert_status'' else l)"
  using assms by (simp add: target_index_def and_then_def raw_input_def return_def)

lemma target_index_not_empty: "fst (target_index a w) \<noteq> Inr []"
proof (cases "index a")
  case None
  then show ?thesis
    by (cases "stdin w") (simp_all add: target_index_def and_then_def raw_input_def return_def)
next
  case (Some s)
  then show ?thesis
    by (simp add: target_index_def and_then_def return_def)
qed

text \<open>
  C9 (as amended). When the target index is asked for at the prompt and the answer is the
  empty string, the resolved target index is the literal \<^verbatim>\<open>elastalert_status\<close>; any other
  answer, white space included, is the resolved target index as it stands. The resolved
  target index is never the empty string.
\<close>

theorem empty_index_answer_defaults:
  "(index a = None \<and> stdin w = l # rest \<longrightarrow>
      fst (target_index a w) = Inr (if l = [] then ''elastalert_status'' else l))
   \<and> fst (target_index a w) \<noteq> Inr []"
  using target_index_prompted [of a w l rest] target_index_not_empty [of a w] by blast

theorem empty_index_answer_defaults_witness:
  "index (defaults no_environ) = None
   \<and> stdin (start ([] # [''bar'']) ()) = [] # [''bar'']
   \<and> fst (target_index (defaults no_environ) (start ([] # [''bar'']) ())) = Inr ''elastalert_status''"
proof -
  have 1: "index (defaults no_environ) = None" by (simp add: defaults_def)
  have 2: "stdin (start ([] # [''bar'']) ()) = [] # [''bar'']" by (simp add: start_def)
  from empty_index_answer_defaults [of "defaults no_environ" "start ([] # [''bar'']) ()" "[]" "[''bar'']"]
    1 2
  show ?thesis by simp
qed

section \<open>TLS settings from the file\<close>

text \<open>
  With \<^verbatim>\<open>use_ssl: true\<close> in the file, no \<^verbatim>\<open>verify_certs\<close> key and neither certificate flag on
  the command line, \<^verbatim>\<open>--no-ssl\<close> still turns TLS off.
\<close>

theorem no_ssl_flag_counterexample:
  "OptVerifyCerts \<notin> set [OptNoSsl] \<and> OptNoVerifyCerts \<notin> set [OptNoSsl]
   \<and> (case configuration int_of_digits no_environ ssl_files [OptNoSsl] (start [] ()) of
         Inl e \<Rightarrow> False
       | Inr cfg \<Rightarrow> resolved.use_ssl cfg = PBool False)"
proof -
  let ?a = "(defaults no_environ)\<lparr>ssl := Some False\<rparr>"
  let ?data = "[''use_ssl'' \<mapsto> PBool True]"
  have 1: "parse_args int_of_digits no_environ [OptNoSsl] = Inr ?a"
    by (simp add: parse_args_def no_environ_def)
  have 2: "choose_filename ssl_files ?a \<noteq> []"
    and 3: "ssl_files (choose_filename ssl_files ?a) = Some (Mapping ?data)"
    by (simp_all add: choose_filename_def isfile_def ssl_files_def)
  have "configuration int_of_digits no_environ ssl_files [OptNoSsl] (start [] ())
      = Inr (from_file ?a ?data)"
    by (rule configuration_file [OF 1 2 3])
  moreover have "resolved.use_ssl (from_file ?a ?data) = PBool False"
    by (simp add: from_file_def)
  ultimately show ?thesis by simp
qed

text \<open>
  C6 (as amended). In file-present mode, when neither \<^verbatim>\<open>--verify-certs\<close> nor
  \<^verbatim>\<open>--no-verify-certs\<close> is given: if the file sets \<^verbatim>\<open>use_ssl\<close> to true and has no
  \<^verbatim>\<open>verify_certs\<close> key, and TLS is not turned off by \<^verbatim>\<open>--no-ssl\<close> or by a false \<open>ES_USE_SSL\<close>,
  then the resolved \<open>use_ssl\<close> is true and the resolved \<open>verify_certs\<close> is true; and
  \<open>verify_certs\<close> resolves to false exactly when the file sets \<^verbatim>\<open>verify_certs\<close> to false.
\<close>

theorem verify_certs_absent_is_true:
  assumes "parse_args to_int env argv = Inr a"
      and "choose_filename fs a \<noteq> []"
      and "fs (choose_filename fs a) = Some (Mapping data)"
      and "OptVerifyCerts \<notin> set argv" and "OptNoVerifyCerts \<notin> set argv"
  shows "\<exists>cfg. configuration to_int env fs argv w = Inr cfg
           \<and> (data ''use_ssl'' = Some (PBool True) \<and> data ''verify_certs'' = None
                \<and> OptNoSsl \<notin> set argv \<and> ES_USE_SSL env \<noteq> Some False
              \<longrightarrow> resolved.use_ssl cfg = PBool True \<and> resolved.verify_certs cfg)
           \<and> (\<not> resolved.verify_certs cfg \<longleftrightarrow> data ''verify_certs'' = Some (PBool False))"
proof -
  have c: "configuration to_int env fs argv w = Inr (from_file a data)"
    by (rule configuration_file [OF assms(1-3)])
  have v: "args.verify_certs a = None"
    using parse_args_fields(7) [OF assms(1)] no_verify_flag [OF assms(4,5)] by simp
  have s: "ssl a = given (supplied ssl_opt argv) (ES_USE_SSL env)"
    by (rule parse_args_fields(6) [OF assms(1)])
  have 1: "\<not> resolved.verify_certs (from_file a data) \<longleftrightarrow> data ''verify_certs'' = Some (PBool False)"
    using v by (cases "data ''verify_certs''") (simp_all add: from_file_def dict_get_def)
  have 2: "resolved.use_ssl (from_file a data) = PBool True"
    if "data ''use_ssl'' = Some (PBool True)" "OptNoSsl \<notin> set argv" "ES_USE_SSL env \<noteq> Some False"
  proof -
    have "supplied ssl_opt argv \<noteq> Some False"
      using that(2) no_ssl_supplied [of argv] by blast
    then have "ssl a \<noteq> Some False"
      using s that(3) by (cases "supplied ssl_opt argv") (simp_all add: given_def)
    then show ?thesis
      using that(1) by (cases "ssl a") (simp_all add: from_file_def dict_get_def)
  qed
  have 3: "resolved.verify_certs (from_file a data)" if "data ''verify_certs'' = None"
    using 1 that by simp
  show ?thesis
  proof (intro exI [of _ "from_file a data"] conjI impI)
    show "configuration to_int env fs argv w = Inr (from_file a data)" by (rule c)
  next
    assume h: "data ''use_ssl'' = Some (PBool True) \<and> data ''verify_certs'' = None
      \<and> OptNoSsl \<notin> set argv \<and> ES_USE_SSL env \<noteq> Some False"
    from h show "resolved.use_ssl (from_file a data) = PBool True" by (intro 2) simp_all
    from h show "resolved.verify_certs (from_file a data)" by (intro 3) simp
  next
    show "\<not> resolved.verify_certs (from_file a data)
        \<longleftrightarrow> data ''verify_certs'' = Some (PBool False)" by (rule 1)
  qed
qed

theorem verify_certs_absent_is_true_witness:
  "OptVerifyCerts \<notin> set [OptTimeout ''30''] \<and> OptNoVerifyCerts \<notin> set [OptTimeout ''30'']
   \<and> (case configuration int_of_digits no_environ ssl_files [OptTimeout ''30''] (start [] ()) of
         Inl e \<Rightarrow> False
       | Inr cfg \<Rightarrow> resolved.use_ssl cfg = PBool True \<and> resolved.verify_certs cfg)"
proof -
  let ?a = "(defaults no_environ)\<lparr>args.timeout := PStr ''30''\<rparr>"
  let ?data = "[''use_ssl'' \<mapsto> PBool True]"
  have 1: "parse_args int_of_digits no_environ [OptTimeout ''30''] = Inr ?a"
    by (simp add: parse_args_def no_environ_def)
  have 2: "choose_filename ssl_files ?a \<noteq> []"
    and 3: "ssl_files (choose_filename ssl_files ?a) = Some (Mapping ?data)"
    by (simp_all add: choose_filename_def isfile_def ssl_files_def)
  have 4: "OptVerifyCerts \<notin> set [OptTimeout ''30'']" "OptNoVerifyCerts \<notin> set [OptTimeout ''30'']"
    by simp_all
  have 5: "?data ''use_ssl'' = Some (PBool True)" "?data ''verify_certs'' = None"
    "OptNoSsl \<notin> set [OptTimeout ''30'']" "ES_USE_SSL no_environ \<noteq> Some False"
    by (simp_all add: no_environ_def)
  from verify_certs_absent_is_true [OF 1 2 3 4, of "start [] ()"]
  obtain cfg where c: "configuration int_of_digits no_environ ssl_files [OptTimeout ''30''] (start [] ())
        = Inr cfg
      \<and> (?data ''use_ssl'' = Some (PBool True) \<and> ?data ''verify_certs'' = None
            \<and> OptNoSsl \<notin> set [OptTimeout ''30''] \<and> ES_USE_SSL no_environ \<noteq> Some False
          \<longrightarrow> resolved.use_ssl cfg = PBool True \<and> resolved.verify_certs cfg)
      \<and> (\<not> resolved.verify_certs cfg \<longleftrightarrow> ?data ''verify_certs'' = Some (PBool False))" ..
  from c have "configuration int_of_digits no_environ ssl_files [OptTimeout ''30''] (start [] ())
        = Inr cfg" by (rule conjunct1)
  moreover from c 5 have "resolved.use_ssl cfg = PBool True \<and> resolved.verify_certs cfg"
    by simp
  ultimately show ?thesis using 4 by simp
qed

section \<open>Precedence of the command line, the environment and the file\<close>

lemma full_files_mode:
  assumes "parse_args to_int env argv = Inr a"
  shows "configuration to_int env full_files argv w = Inr (from_file a full_data)"
proof -
  have 2: "choose_filename full_files a \<noteq> []"
    and 3: "full_files (choose_filename full_files a) = Some (Mapping full_data)"
    by (simp_all add: choose_filename_def isfile_def full_files_def)
  show ?thesis by (rule configuration_file [OF assms 2 3])
qed

text \<open>
  With \<^verbatim>\<open>--port 0\<close> on the command line and \<open>ES_USERNAME\<close> in the environment, the resolved
  port is the file's, not the one of the command line, and the resolved username is the
  environment's, although the command line gives none and the file gives one.
\<close>

theorem cli_precedence_counterexample:
  "supplied port_opt [OptPort ''0''] = Some ''0'' \<and> int_of_digits ''0'' = Some 0
   \<and> supplied username_opt [OptPort ''0''] = None
   \<and> full_data ''es_port'' = Some (PInt 9200)
   \<and> full_data ''es_username'' = Some (PStr ''fileuser'')
   \<and> (case configuration int_of_digits user_environ full_files [OptPort ''0''] (start [] ()) of
         Inl e \<Rightarrow> False
       | Inr cfg \<Rightarrow> resolved.port cfg = PInt 9200 \<and> resolved.username cfg = PStr ''envuser'')"
proof -
  let ?a = "(defaults user_environ)\<lparr>args.port := Some 0\<rparr>"
  have 1: "parse_args int_of_digits user_environ [OptPort ''0''] = Inr ?a"
    by (simp add: parse_args_def int_of_digits_def digit_def)
  have "resolved.port (from_file ?a full_data) = PInt 9200"
    "resolved.username (from_file ?a full_data) = PStr ''envuser''"
    by (simp_all add: from_file_def full_data_def dict_get_def int_or_def str_or_def
        defaults_def user_environ_def no_environ_def)
  with full_files_mode [OF 1, of "start [] ()"] show ?thesis
    by (simp add: int_of_digits_def digit_def full_data_def)
qed

text \<open>
  C1 (as amended). In file-present mode, for every command line, environment and file:
  host, username and password are the value the parser holds (the last one given on the
  command line, else the variable \<open>ES_HOST\<close>, \<open>ES_USERNAME\<close>, \<open>ES_PASSWORD\<close>) when that value
  is not empty, and otherwise the file's value, else \<^verbatim>\<open>None\<close>; the port likewise, with
  \<open>ES_PORT\<close>, when the number is not zero; the URL prefix is the one given on the command
  line, even when empty, else the file's, else the empty string; \<open>use_ssl\<close> is the last of
  \<^verbatim>\<open>--ssl\<close> and \<^verbatim>\<open>--no-ssl\<close>, else \<open>ES_USE_SSL\<close>, else the file's value, else \<^verbatim>\<open>None\<close>;
  \<open>verify_certs\<close> is the last of \<^verbatim>\<open>--verify-certs\<close> and \<^verbatim>\<open>--no-verify-certs\<close>, else false
  exactly when the file sets it to false; the three certificate paths, which have no
  option, are the file's values, else \<^verbatim>\<open>None\<close>.
\<close>

theorem file_mode_precedence:
  assumes "parse_args to_int env argv = Inr a"
      and "choose_filename fs a \<noteq> []"
      and "fs (choose_filename fs a) = Some (Mapping data)"
  shows "\<exists>cfg. configuration to_int env fs argv w = Inr cfg
     \<and> resolved.host cfg =
         str_or (given (supplied host_opt argv) (ES_HOST env)) (dict_get data ''es_host'' PNone)
     \<and> resolved.port cfg =
         int_or (Option.bind (given (supplied port_opt argv) (ES_PORT env)) to_int)
           (dict_get data ''es_port'' PNone)
     \<and> resolved.username cfg =
         str_or (given (supplied username_opt argv) (ES_USERNAME env))
           (dict_get data ''es_username'' PNone)
     \<and> resolved.password cfg =
         str_or (given (supplied password_opt argv) (ES_PASSWORD env))
           (dict_get data ''es_password'' PNone)
     \<and> resolved.url_prefix cfg =
         (case supplied url_prefix_opt argv of
            Some s \<Rightarrow> PStr s
          | None \<Rightarrow> dict_get data ''es_url_prefix'' (PStr []))
     \<and> resolved.use_ssl cfg =
         (case given (supplied ssl_opt argv) (ES_USE_SSL env) of
            Some b \<Rightarrow> PBool b
          | None \<Rightarrow> dict_get data ''use_ssl'' PNone)
     \<and> resolved.verify_certs cfg =
         (case supplied verify_certs_opt argv of
            Some b \<Rightarrow> b
          | None \<Rightarrow> data ''verify_certs'' \<noteq> Some (PBool False))
     \<and> resolved.ca_certs cfg = dict_get data ''ca_certs'' PNone
     \<and> resolved.client_cert cfg = dict_get data ''client_cert'' PNone
     \<and> resolved.client_key cfg = dict_get data ''client_key'' PNone"
proof (intro exI [of _ "from_file a data"] conjI)
  note f = parse_args_fields [OF assms(1)]
  show "configuration to_int env fs argv w = Inr (from_file a data)"
    by (rule configuration_file [OF assms])
  show "resolved.host (from_file a data) =
      str_or (given (supplied host_opt argv) (ES_HOST env)) (dict_get data ''es_host'' PNone)"
    by (simp add: from_file_def f(1))
  show "resolved.port (from_file a data) =
      int_or (Option.bind (given (supplied port_opt argv) (ES_PORT env)) to_int)
        (dict_get data ''es_port'' PNone)"
    by (simp add: from_file_def f(2))
  show "resolved.username (from_file a data) =
      str_or (given (supplied username_opt argv) (ES_USERNAME env))
        (dict_get data ''es_username'' PNone)"
    by (simp add: from_file_def f(3))
  show "resolved.password (from_file a data) =
      str_or (given (supplied password_opt argv) (ES_PASSWORD env))
        (dict_get data ''es_password'' PNone)"
    by (simp add: from_file_def f(4))
  show "resolved.url_prefix (from_file a data) =
      (case supplied url_prefix_opt argv of
         Some s \<Rightarrow> PStr s
       | None \<Rightarrow> dict_get data ''es_url_prefix'' (PStr []))"
    by (simp add: from_file_def f(5))
  show "resolved.use_ssl (from_file a data) =
      (case given (supplied ssl_opt argv) (ES_USE_SSL env) of
         Some b \<Rightarrow> PBool b
       | None \<Rightarrow> dict_get data ''use_ssl'' PNone)"
    by (simp add: from_file_def f(6))
  show "resolved.verify_certs (from_file a data) =
      (case supplied verify_certs_opt argv of
         Some b \<Rightarrow> b
       | None \<Rightarrow> data ''verify_certs'' \<noteq> Some (PBool False))"
    by (cases "data ''verify_certs''"; cases "supplied verify_certs_opt argv")
      (simp_all add: from_file_def f(7) dict_get_def)
  show "resolved.ca_certs (from_file a data) = dict_get data ''ca_certs'' PNone"
    "resolved.client_cert (from_file a data) = dict_get data ''client_cert'' PNone"
    "resolved.client_key (from_file a data) = dict_get data ''client_key'' PNone"
    by (simp_all add: from_file_def)
qed

theorem file_mode_precedence_witness:
  "parse_args int_of_digits no_environ [OptHost ''clihost'']
     = Inr ((defaults no_environ)\<lparr>args.host := Some ''clihost''\<rparr>)
   \<and> choose_filename full_files ((defaults no_environ)\<lparr>args.host := Some ''clihost''\<rparr>) = ''config.yaml''
   \<and> full_files ''config.yaml'' = Some (Mapping full_data)
   \<and> (case configuration int_of_digits no_environ full_files [OptHost ''clihost''] (start [] ()) of
         Inl e \<Rightarrow> False
       | Inr cfg \<Rightarrow>
           resolved.host cfg = PStr ''clihost'' \<and> resolved.port cfg = PInt 9200
           \<and> resolved.username cfg = PStr ''fileuser'' \<and> resolved.password cfg = PNone
           \<and> resolved.url_prefix cfg = PStr [] \<and> resolved.use_ssl cfg = PBool True
           \<and> \<not> resolved.verify_certs cfg \<and> resolved.ca_certs cfg = PNone
           \<and> resolved.client_cert cfg = PNone \<and> resolved.client_key cfg = PNone)"
proof -
  let ?argv = "[OptHost ''clihost'']"
  let ?a = "(defaults no_environ)\<lparr>args.host := Some ''clihost''\<rparr>"
  have 1: "parse_args int_of_digits no_environ ?argv = Inr ?a"
    by (simp add: parse_args_def no_environ_def)
  have 2: "choose_filename full_files ?a = ''config.yaml''"
    by (simp add: choose_filename_def isfile_def full_files_def)
  have 3: "full_files ''config.yaml'' = Some (Mapping full_data)"
    by (simp add: full_files_def)
  have 4: "choose_filename full_files ?a \<noteq> []" by (simp add: 2)
  have 5: "full_files (choose_filename full_files ?a) = Some (Mapping full_data)"
    by (simp add: 2 3)
  from file_mode_precedence [OF 1 4 5, of "start [] ()"]
  obtain cfg where c: "configuration int_of_digits no_environ full_files ?argv (start [] ()) = Inr cfg
     \<and> resolved.host cfg =
         str_or (given (supplied host_opt ?argv) (ES_HOST no_environ)) (dict_get full_data ''es_host'' PNone)
     \<and> resolved.port cfg =
         int_or (Option.bind (given (supplied port_opt ?argv) (ES_PORT no_environ)) int_of_digits)
           (dict_get full_data ''es_port'' PNone)
     \<and> resolved.username cfg =
         str_or (given (supplied username_opt ?argv) (ES_USERNAME no_environ))
           (dict_get full_data ''es_username'' PNone)
     \<and> resolved.password cfg =
         str_or (given (supplied password_opt ?argv) (ES_PASSWORD no_environ))
           (dict_get full_data ''es_password'' PNone)
     \<and> resolved.url_prefix cfg =
         (case supplied url_prefix_opt ?argv of
            Some s \<Rightarrow> PStr s
          | None \<Rightarrow> dict_get full_data ''es_url_prefix'' (PStr []))
     \<and> resolved.use_ssl cfg =
         (case given (supplied ssl_opt ?argv) (ES_USE_SSL no_environ) of
            Some b \<Rightarrow> PBool b
          | None \<Rightarrow> dict_get full_data ''use_ssl'' PNone)
     \<and> resolved.verify_certs cfg =
         (case supplied verify_certs_opt ?argv of
            Some b \<Rightarrow> b
          | None \<Rightarrow> full_data ''verify_certs'' \<noteq> Some (PBool False))
     \<and> resolved.ca_certs cfg = dict_get full_data ''ca_certs'' PNone
     \<and> resolved.client_cert cfg = dict_get full_data ''client_cert'' PNone
     \<and> resolved.client_key cfg = dict_get full_data ''client_key'' PNone" ..
  then have "configuration int_of_digits no_environ full_files ?argv (start [] ()) = Inr cfg"
    and "resolved.host cfg = PStr ''clihost'' \<and> resolved.port cfg = PInt 9200
       \<and> resolved.username cfg = PStr ''fileuser'' \<and> resolved.password cfg = PNone
       \<and> resolved.url_prefix cfg = PStr [] \<and> resolved.use_ssl cfg = PBool True
       \<and> \<not> resolved.verify_certs cfg \<and> resolved.ca_certs cfg = PNone
       \<and> resolved.client_cert cfg = PNone \<and> resolved.client_key cfg = PNone"
    by (simp_all add: given_def str_or_def int_or_def dict_get_def full_data_def no_environ_def)
  with 1 2 3 show ?thesis by simp
qed

text \<open>
  The region and the request method are read from the file alone in this mode; the
  options \<^verbatim>\<open>--aws-region\<close> and \<^verbatim>\<open>--send_get_body_as\<close> are not consulted.
\<close>

lemma file_mode_region_and_method:
  assumes "parse_args to_int env argv = Inr a"
      and "choose_filename fs a \<noteq> []"
      and "fs (choose_filename fs a) = Some (Mapping data)"
  shows "\<exists>cfg. configuration to_int env fs argv w = Inr cfg
     \<and> resolved.aws_region cfg = dict_get data ''aws_region'' PNone
     \<and> resolved.send_get_body_as cfg = dict_get data ''send_get_body_as'' (PStr ''GET'')"
proof (intro exI [of _ "from_file a data"] conjI)
  show "configuration to_int env fs argv w = Inr (from_file a data)"
    by (rule configuration_file [OF assms])
  show "resolved.aws_region (from_file a data) = dict_get data ''aws_region'' PNone"
    "resolved.send_get_body_as (from_file a data) = dict_get data ''send_get_body_as'' (PStr ''GET'')"
    by (simp_all add: from_file_def)
qed

section \<open>Environment variables as parser defaults\<close>

text \<open>
  A port of zero in \<open>ES_PORT\<close> does not override the file's port: zero is false, as it is
  when given with \<^verbatim>\<open>--port\<close>.
\<close>

theorem zero_port_variable_counterexample:
  "ES_PORT zero_port_environ = Some ''0'' \<and> int_of_digits ''0'' = Some 0
   \<and> supplied port_opt [] = None \<and> full_data ''es_port'' = Some (PInt 9200)
   \<and> (case configuration int_of_digits zero_port_environ full_files [] (start [] ()) of
         Inl e \<Rightarrow> False
       | Inr cfg \<Rightarrow> resolved.port cfg = PInt 9200)"
proof -
  let ?a = "(defaults zero_port_environ)\<lparr>args.port := Some 0\<rparr>"
  have 1: "parse_args int_of_digits zero_port_environ [] = Inr ?a"
    by (simp add: parse_args_def int_of_digits_def digit_def zero_port_environ_def no_environ_def)
  have "resolved.port (from_file ?a full_data) = PInt 9200"
    by (simp add: from_file_def full_data_def dict_get_def int_or_def)
  with full_files_mode [OF 1, of "start [] ()"] show ?thesis
    by (simp add: int_of_digits_def digit_def full_data_def zero_port_environ_def no_environ_def)
qed

lemma environment_overrides_file:
  assumes "parse_args to_int env argv = Inr a"
  shows "supplied host_opt argv = None \<Longrightarrow> ES_HOST env = Some h \<Longrightarrow> h \<noteq> []
           \<Longrightarrow> resolved.host (from_file a data) = PStr h"
    and "supplied port_opt argv = None \<Longrightarrow> ES_PORT env = Some p \<Longrightarrow> to_int p = Some n \<Longrightarrow> n \<noteq> 0
           \<Longrightarrow> resolved.port (from_file a data) = PInt n"
    and "supplied username_opt argv = None \<Longrightarrow> ES_USERNAME env = Some u \<Longrightarrow> u \<noteq> []
           \<Longrightarrow> resolved.username (from_file a data) = PStr u"
    and "supplied password_opt argv = None \<Longrightarrow> ES_PASSWORD env = Some pw \<Longrightarrow> pw \<noteq> []
           \<Longrightarrow> resolved.password (from_file a data) = PStr pw"
    and "supplied ssl_opt argv = None \<Longrightarrow> ES_USE_SSL env = Some b
           \<Longrightarrow> resolved.use_ssl (from_file a data) = PBool b"
  using parse_args_fields [OF assms]
  by (simp_all add: from_file_def given_def str_or_def int_or_def)

lemma empty_environment_leaves_file:
  assumes "parse_args to_int env argv = Inr a"
  shows "supplied host_opt argv = None \<Longrightarrow> ES_HOST env = Some []
           \<Longrightarrow> resolved.host (from_file a data)
               = (case data ''es_host'' of None \<Rightarrow> PNone | Some v \<Rightarrow> v)"
    and "supplied port_opt argv = None \<Longrightarrow> ES_PORT env = Some p \<Longrightarrow> to_int p = Some 0
           \<Longrightarrow> resolved.port (from_file a data)
               = (case data ''es_port'' of None \<Rightarrow> PNone | Some v \<Rightarrow> v)"
    and "supplied username_opt argv = None \<Longrightarrow> ES_USERNAME env = Some []
           \<Longrightarrow> resolved.username (from_file a data)
               = (case data ''es_username'' of None \<Rightarrow> PNone | Some v \<Rightarrow> v)"
    and "supplied password_opt argv = None \<Longrightarrow> ES_PASSWORD env = Some []
           \<Longrightarrow> resolved.password (from_file a data)
               = (case data ''es_password'' of None \<Rightarrow> PNone | Some v \<Rightarrow> v)"
  using parse_args_fields [OF assms]
  by (simp_all add: from_file_def given_def str_or_def int_or_def dict_get_def)

text \<open>
  C10 (as amended). The five variables are the defaults of the parser, so a value set
  through one of them, for an option the command line does not give, yields the very
  namespace that the same value given on the command line yields (for \<open>ES_USE_SSL\<close>, the
  flag \<^verbatim>\<open>--ssl\<close> or \<^verbatim>\<open>--no-ssl\<close>). In file-present mode such a value therefore overrides the
  file's \<^verbatim>\<open>es_host\<close>, \<^verbatim>\<open>es_port\<close>, \<^verbatim>\<open>es_username\<close>, \<^verbatim>\<open>es_password\<close> or \<^verbatim>\<open>use_ssl\<close>, provided
  it is not empty (for the port: not zero); \<open>ES_USE_SSL\<close> overrides whatever its value. An
  empty \<open>ES_HOST\<close>, \<open>ES_USERNAME\<close> or \<open>ES_PASSWORD\<close> and a zero \<open>ES_PORT\<close> leave the file's
  value in place (\<^verbatim>\<open>None\<close> when the file has none), as they do when given on the command line.
\<close>

theorem environment_is_command_line:
  "(supplied host_opt argv = None \<longrightarrow>
      parse_args to_int (env\<lparr>ES_HOST := Some v\<rparr>) argv
        = parse_args to_int (env\<lparr>ES_HOST := None\<rparr>) (argv @ [OptHost v]))
   \<and> (supplied port_opt argv = None \<longrightarrow>
      parse_args to_int (env\<lparr>ES_PORT := Some v\<rparr>) argv
        = parse_args to_int (env\<lparr>ES_PORT := None\<rparr>) (argv @ [OptPort v]))
   \<and> (supplied username_opt argv = None \<longrightarrow>
      parse_args to_int (env\<lparr>ES_USERNAME := Some v\<rparr>) argv
        = parse_args to_int (env\<lparr>ES_USERNAME := None\<rparr>) (argv @ [OptUsername v]))
   \<and> (supplied password_opt argv = None \<longrightarrow>
      parse_args to_int (env\<lparr>ES_PASSWORD := Some v\<rparr>) argv
        = parse_args to_int (env\<lparr>ES_PASSWORD := None\<rparr>) (argv @ [OptPassword v]))
   \<and> (supplied ssl_opt argv = None \<longrightarrow>
      parse_args to_int (env\<lparr>ES_USE_SSL := Some b\<rparr>) argv
        = parse_args to_int (env\<lparr>ES_USE_SSL := None\<rparr>) (argv @ [if b then OptSsl else OptNoSsl]))
   \<and> (parse_args to_int env argv = Inr a \<and> choose_filename fs a \<noteq> []
        \<and> fs (choose_filename fs a) = Some (Mapping data) \<longrightarrow>
      (\<exists>cfg. configuration to_int env fs argv w = Inr cfg
         \<and> (supplied host_opt argv = None \<and> ES_HOST env = Some h \<and> h \<noteq> []
              \<longrightarrow> resolved.host cfg = PStr h)
         \<and> (supplied port_opt argv = None \<and> ES_PORT env = Some p \<and> to_int p = Some n \<and> n \<noteq> 0
              \<longrightarrow> resolved.port cfg = PInt n)
         \<and> (supplied username_opt argv = None \<and> ES_USERNAME env = Some u \<and> u \<noteq> []
              \<longrightarrow> resolved.username cfg = PStr u)
         \<and> (supplied password_opt argv = None \<and> ES_PASSWORD env = Some pw \<and> pw \<noteq> []
              \<longrightarrow> resolved.password cfg = PStr pw)
         \<and> (supplied ssl_opt argv = None \<and> ES_USE_SSL env = Some c
              \<longrightarrow> resolved.use_ssl cfg = PBool c)
         \<and> (supplied host_opt argv = None \<and> ES_HOST env = Some []
              \<longrightarrow> resolved.host cfg = (case data ''es_host'' of None \<Rightarrow> PNone | Some x \<Rightarrow> x))
         \<and> (supplied port_opt argv = None \<and> ES_PORT env = Some z \<and> to_int z = Some 0
              \<longrightarrow> resolved.port cfg = (case data ''es_port'' of None \<Rightarrow> PNone | Some x \<Rightarrow> x))
         \<and> (supplied username_opt argv = None \<and> ES_USERNAME env = Some []
              \<longrightarrow> resolved.username cfg
                  = (case data ''es_username'' of None \<Rightarrow> PNone | Some x \<Rightarrow> x))
         \<and> (supplied password_opt argv = None \<and> ES_PASSWORD env = Some []
              \<longrightarrow> resolved.password cfg
                  = (case data ''es_password'' of None \<Rightarrow> PNone | Some x \<Rightarrow> x))))"
proof (intro conjI impI)
  assume h: "parse_args to_int env argv = Inr a \<and> choose_filename fs a \<noteq> []
        \<and> fs (choose_filename fs a) = Some (Mapping data)"
  then have 1: "parse_args to_int env argv = Inr a" and 2: "choose_filename fs a \<noteq> []"
    and 3: "fs (choose_filename fs a) = Some (Mapping data)" by simp_all
  show "\<exists>cfg. configuration to_int env fs argv w = Inr cfg
         \<and> (supplied host_opt argv = None \<and> ES_HOST env = Some h \<and> h \<noteq> []
              \<longrightarrow> resolved.host cfg = PStr h)
         \<and> (supplied port_opt argv = None \<and> ES_PORT env = Some p \<and> to_int p = Some n \<and> n \<noteq> 0
              \<longrightarrow> resolved.port cfg = PInt n)
         \<and> (supplied username_opt argv = None \<and> ES_USERNAME env = Some u \<and> u \<noteq> []
              \<longrightarrow> resolved.username cfg = PStr u)
         \<and> (supplied password_opt argv = None \<and> ES_PASSWORD env = Some pw \<and> pw \<noteq> []
              \<longrightarrow> resolved.password cfg = PStr pw)
         \<and> (supplied ssl_opt argv = None \<and> ES_USE_SSL env = Some c
              \<longrightarrow> resolved.use_ssl cfg = PBool c)
         \<and> (supplied host_opt argv = None \<and> ES_HOST env = Some []
              \<longrightarrow> resolved.host cfg = (case data ''es_host'' of None \<Rightarrow> PNone | Some x \<Rightarrow> x))
         \<and> (supplied port_opt argv = None \<and> ES_PORT env = Some z \<and> to_int z = Some 0
              \<longrightarrow> resolved.port cfg = (case data ''es_port'' of None \<Rightarrow> PNone | Some x \<Rightarrow> x))
         \<and> (supplied username_opt argv = None \<and> ES_USERNAME env = Some []
              \<longrightarrow> resolved.username cfg
                  = (case data ''es_username'' of None \<Rightarrow> PNone | Some x \<Rightarrow> x))
         \<and> (supplied password_opt argv = None \<and> ES_PASSWORD env = Some []
              \<longrightarrow> resolved.password cfg
                  = (case data ''es_password'' of None \<Rightarrow> PNone | Some x \<Rightarrow> x))"
  proof (intro exI [of _ "from_file a data"] conjI impI)
    show "configuration to_int env fs argv w = Inr (from_file a data)"
      by (rule configuration_file [OF 1 2 3])
  qed (simp_all add: environment_overrides_file [OF 1] empty_environment_leaves_file [OF 1])
qed (simp_all add: host_from_environment port_from_environment username_from_environment
    password_from_environment ssl_from_environment)

theorem environment_is_command_line_witness:
  "supplied host_opt [] = None \<and> supplied port_opt [] = None \<and> supplied username_opt [] = None
   \<and> supplied password_opt [] = None \<and> supplied ssl_opt [] = None
   \<and> parse_args int_of_digits set_environ []
       = parse_args int_of_digits (set_environ\<lparr>ES_HOST := None\<rparr>) [OptHost ''envhost'']
   \<and> parse_args int_of_digits set_environ []
       = parse_args int_of_digits (set_environ\<lparr>ES_PORT := None\<rparr>) [OptPort ''9300'']
   \<and> parse_args int_of_digits set_environ []
       = parse_args int_of_digits (set_environ\<lparr>ES_USERNAME := None\<rparr>) [OptUsername ''envuser'']
   \<and> parse_args int_of_digits set_environ []
       = parse_args int_of_digits (set_environ\<lparr>ES_PASSWORD := None\<rparr>) [OptPassword ''envpass'']
   \<and> parse_args int_of_digits set_environ []
       = parse_args int_of_digits (set_environ\<lparr>ES_USE_SSL := None\<rparr>) [OptNoSsl]
   \<and> full_data ''es_host'' = Some (PStr ''filehost'') \<and> full_data ''use_ssl'' = Some (PBool True)
   \<and> (case configuration int_of_digits set_environ full_files [] (start [] ()) of
         Inl e \<Rightarrow> False
       | Inr cfg \<Rightarrow>
           resolved.host cfg = PStr ''envhost'' \<and> resolved.port cfg = PInt 9300
           \<and> resolved.username cfg = PStr ''envuser'' \<and> resolved.password cfg = PStr ''envpass''
           \<and> resolved.use_ssl cfg = PBool False)
   \<and> ES_HOST blank_environ = Some [] \<and> ES_PORT blank_environ = Some ''0''
   \<and> int_of_digits ''0'' = Some 0
   \<and> ES_USERNAME blank_environ = Some [] \<and> ES_PASSWORD blank_environ = Some []
   \<and> (case configuration int_of_digits blank_environ full_files [] (start [] ()) of
         Inl e \<Rightarrow> False
       | Inr cfg \<Rightarrow>
           resolved.host cfg = PStr ''filehost'' \<and> resolved.port cfg = PInt 9200
           \<and> resolved.username cfg = PStr ''fileuser'' \<and> resolved.password cfg = PNone)"
proof -
  let ?a = "(defaults set_environ)\<lparr>args.port := Some 9300\<rparr>"
  let ?w = "start [] ()"
  have s: "supplied host_opt [] = None" "supplied port_opt [] = None"
    "supplied username_opt [] = None" "supplied password_opt [] = None"
    "supplied ssl_opt [] = None"
    by simp_all
  have e: "set_environ\<lparr>ES_HOST := Some ''envhost''\<rparr> = set_environ"
    "set_environ\<lparr>ES_PORT := Some ''9300''\<rparr> = set_environ"
    "set_environ\<lparr>ES_USERNAME := Some ''envuser''\<rparr> = set_environ"
    "set_environ\<lparr>ES_PASSWORD := Some ''envpass''\<rparr> = set_environ"
    "set_environ\<lparr>ES_USE_SSL := Some False\<rparr> = set_environ"
    by (simp_all add: set_environ_def)
  have v: "ES_HOST set_environ = Some ''envhost''" "ES_PORT set_environ = Some ''9300''"
    "ES_USERNAME set_environ = Some ''envuser''" "ES_PASSWORD set_environ = Some ''envpass''"
    "ES_USE_SSL set_environ = Some False" "int_of_digits ''9300'' = Some 9300"
    by (simp_all add: set_environ_def int_of_digits_def digit_def)
  have 1: "parse_args int_of_digits set_environ [] = Inr ?a"
    by (simp add: parse_args_def v)
  have 2: "choose_filename full_files ?a \<noteq> []"
    and 3: "full_files (choose_filename full_files ?a) = Some (Mapping full_data)"
    by (simp_all add: choose_filename_def isfile_def full_files_def)
  have d: "full_data ''es_host'' = Some (PStr ''filehost'')"
    "full_data ''use_ssl'' = Some (PBool True)"
    by (simp_all add: full_data_def)
  have p1: "parse_args int_of_digits set_environ []
       = parse_args int_of_digits (set_environ\<lparr>ES_HOST := None\<rparr>) [OptHost ''envhost'']"
    using environment_is_command_line [where argv = "[]" and to_int = int_of_digits
        and env = set_environ and v = "''envhost''", THEN conjunct1] s e
    by simp
  have p2: "parse_args int_of_digits set_environ []
       = parse_args int_of_digits (set_environ\<lparr>ES_PORT := None\<rparr>) [OptPort ''9300'']"
    using environment_is_command_line [where argv = "[]" and to_int = int_of_digits
        and env = set_environ and v = "''9300''", THEN conjunct2, THEN conjunct1] s e
    by simp
  have p3: "parse_args int_of_digits set_environ []
       = parse_args int_of_digits (set_environ\<lparr>ES_USERNAME := None\<rparr>) [OptUsername ''envuser'']"
    using environment_is_command_line [where argv = "[]" and to_int = int_of_digits
        and env = set_environ and v = "''envuser''", THEN conjunct2, THEN conjunct2, THEN conjunct1] s e
    by simp
  have p4: "parse_args int_of_digits set_environ []
       = parse_args int_of_digits (set_environ\<lparr>ES_PASSWORD := None\<rparr>) [OptPassword ''envpass'']"
    using environment_is_command_line [where argv = "[]" and to_int = int_of_digits
        and env = set_environ and v = "''envpass''", THEN conjunct2, THEN conjunct2, THEN conjunct2, THEN conjunct1] s e
    by simp
  have p5: "parse_args int_of_digits set_environ []
       = parse_args int_of_digits (set_environ\<lparr>ES_USE_SSL := None\<rparr>) [OptNoSsl]"
    using environment_is_command_line [where argv = "[]" and to_int = int_of_digits
        and env = set_environ and b = False, THEN conjunct2, THEN conjunct2, THEN conjunct2,
        THEN conjunct2, THEN conjunct1] s e
    by simp
  from environment_is_command_line [where argv = "[]" and to_int = int_of_digits
      and env = set_environ and a = ?a and fs = full_files and data = full_data and w = ?w
      and h = "''envhost''" and p = "''9300''" and n = 9300 and u = "''envuser''"
      and pw = "''envpass''" and c = False and z = "''0''", THEN conjunct2, THEN conjunct2, THEN conjunct2,
      THEN conjunct2, THEN conjunct2] 1 2 3
  have "\<exists>cfg. configuration int_of_digits set_environ full_files [] ?w = Inr cfg
         \<and> (supplied host_opt [] = None \<and> ES_HOST set_environ = Some ''envhost'' \<and> ''envhost'' \<noteq> []
              \<longrightarrow> resolved.host cfg = PStr ''envhost'')
         \<and> (supplied port_opt [] = None \<and> ES_PORT set_environ = Some ''9300''
              \<and> int_of_digits ''9300'' = Some 9300 \<and> (9300 :: int) \<noteq> 0
              \<longrightarrow> resolved.port cfg = PInt 9300)
         \<and> (supplied username_opt [] = None \<and> ES_USERNAME set_environ = Some ''envuser''
              \<and> ''envuser'' \<noteq> []
              \<longrightarrow> resolved.username cfg = PStr ''envuser'')
         \<and> (supplied password_opt [] = None \<and> ES_PASSWORD set_environ = Some ''envpass''
              \<and> ''envpass'' \<noteq> []
              \<longrightarrow> resolved.password cfg = PStr ''envpass'')
         \<and> (supplied ssl_opt [] = None \<and> ES_USE_SSL set_environ = Some False
              \<longrightarrow> resolved.use_ssl cfg = PBool False)
         \<and> (supplied host_opt [] = None \<and> ES_HOST set_environ = Some []
              \<longrightarrow> resolved.host cfg
                  = (case full_data ''es_host'' of None \<Rightarrow> PNone | Some x \<Rightarrow> x))
         \<and> (supplied port_opt [] = None \<and> ES_PORT set_environ = Some ''0''
              \<and> int_of_digits ''0'' = Some 0
              \<longrightarrow> resolved.port cfg
                  = (case full_data ''es_port'' of None \<Rightarrow> PNone | Some x \<Rightarrow> x))
         \<and> (supplied username_opt [] = None \<and> ES_USERNAME set_environ = Some []
              \<longrightarrow> resolved.username cfg
                  = (case full_data ''es_username'' of None \<Rightarrow> PNone | Some x \<Rightarrow> x))
         \<and> (supplied password_opt [] = None \<and> ES_PASSWORD set_environ = Some []
              \<longrightarrow> resolved.password cfg
                  = (case full_data ''es_password'' of None \<Rightarrow> PNone | Some x \<Rightarrow> x))"
    by simp
  then obtain cfg where c: "configuration int_of_digits set_environ full_files [] ?w = Inr cfg
         \<and> (supplied host_opt [] = None \<and> ES_HOST set_environ = Some ''envhost'' \<and> ''envhost'' \<noteq> []
              \<longrightarrow> resolved.host cfg = PStr ''envhost'')
         \<and> (supplied port_opt [] = None \<and> ES_PORT set_environ = Some ''9300''
              \<and> int_of_digits ''9300'' = Some 9300 \<and> (9300 :: int) \<noteq> 0
              \<longrightarrow> resolved.port cfg = PInt 9300)
         \<and> (supplied username_opt [] = None \<and> ES_USERNAME set_environ = Some ''envuser''
              \<and> ''envuser'' \<noteq> []
              \<longrightarrow> resolved.username cfg = PStr ''envuser'')
         \<and> (supplied password_opt [] = None \<and> ES_PASSWORD set_environ = Some ''envpass''
              \<and> ''envpass'' \<noteq> []
              \<longrightarrow> resolved.password cfg = PStr ''envpass'')
         \<and> (supplied ssl_opt [] = None \<and> ES_USE_SSL set_environ = Some False
              \<longrightarrow> resolved.use_ssl cfg = PBool False)
         \<and> (supplied host_opt [] = None \<and> ES_HOST set_environ = Some []
              \<longrightarrow> resolved.host cfg
                  = (case full_data ''es_host'' of None \<Rightarrow> PNone | Some x \<Rightarrow> x))
         \<and> (supplied port_opt [] = None \<and> ES_PORT set_environ = Some ''0''
              \<and> int_of_digits ''0'' = Some 0
              \<longrightarrow> resolved.port cfg
                  = (case full_data ''es_port'' of None \<Rightarrow> PNone | Some x \<Rightarrow> x))
         \<and> (supplied username_opt [] = None \<and> ES_USERNAME set_environ = Some []
              \<longrightarrow> resolved.username cfg
                  = (case full_data ''es_username'' of None \<Rightarrow> PNone | Some x \<Rightarrow> x))
         \<and> (supplied password_opt [] = None \<and> ES_PASSWORD set_environ = Some []
              \<longrightarrow> resolved.password cfg
                  = (case full_data ''es_password'' of None \<Rightarrow> PNone | Some x \<Rightarrow> x))" ..
  then have "configuration int_of_digits set_environ full_files [] ?w = Inr cfg"
    and "resolved.host cfg = PStr ''envhost'' \<and> resolved.port cfg = PInt 9300
           \<and> resolved.username cfg = PStr ''envuser'' \<and> resolved.password cfg = PStr ''envpass''
           \<and> resolved.use_ssl cfg = PBool False"
    using s v by simp_all
  note first = this
  let ?b = "(defaults blank_environ)\<lparr>args.port := Some 0\<rparr>"
  have bv: "ES_HOST blank_environ = Some []" "ES_PORT blank_environ = Some ''0''"
    "ES_USERNAME blank_environ = Some []" "ES_PASSWORD blank_environ = Some []"
    "ES_USE_SSL blank_environ = None" "int_of_digits ''0'' = Some 0"
    by (simp_all add: blank_environ_def int_of_digits_def digit_def)
  have b1: "parse_args int_of_digits blank_environ [] = Inr ?b"
    by (simp add: parse_args_def bv)
  have b2: "choose_filename full_files ?b \<noteq> []"
    and b3: "full_files (choose_filename full_files ?b) = Some (Mapping full_data)"
    by (simp_all add: choose_filename_def isfile_def full_files_def)
  from environment_is_command_line [where argv = "[]" and to_int = int_of_digits
      and env = blank_environ and a = ?b and fs = full_files and data = full_data and w = ?w
      and h = "''x''" and p = "''0''" and n = 0 and u = "''x''"
      and pw = "''x''" and c = False and z = "''0''", THEN conjunct2, THEN conjunct2,
      THEN conjunct2, THEN conjunct2, THEN conjunct2] b1 b2 b3
  have "\<exists>cfg. configuration int_of_digits blank_environ full_files [] ?w = Inr cfg
         \<and> (supplied host_opt [] = None \<and> ES_HOST blank_environ = Some []
              \<longrightarrow> resolved.host cfg
                  = (case full_data ''es_host'' of None \<Rightarrow> PNone | Some x \<Rightarrow> x))
         \<and> (supplied port_opt [] = None \<and> ES_PORT blank_environ = Some ''0''
              \<and> int_of_digits ''0'' = Some 0
              \<longrightarrow> resolved.port cfg
                  = (case full_data ''es_port'' of None \<Rightarrow> PNone | Some x \<Rightarrow> x))
         \<and> (supplied username_opt [] = None \<and> ES_USERNAME blank_environ = Some []
              \<longrightarrow> resolved.username cfg
                  = (case full_data ''es_username'' of None \<Rightarrow> PNone | Some x \<Rightarrow> x))
         \<and> (supplied password_opt [] = None \<and> ES_PASSWORD blank_environ = Some []
              \<longrightarrow> resolved.password cfg
                  = (case full_data ''es_password'' of None \<Rightarrow> PNone | Some x \<Rightarrow> x))"
    by (simp add: bv)
  then obtain cfg' where "configuration int_of_digits blank_environ full_files [] ?w = Inr cfg'
         \<and> (supplied host_opt [] = None \<and> ES_HOST blank_environ = Some []
              \<longrightarrow> resolved.host cfg'
                  = (case full_data ''es_host'' of None \<Rightarrow> PNone | Some x \<Rightarrow> x))
         \<and> (supplied port_opt [] = None \<and> ES_PORT blank_environ = Some ''0''
              \<and> int_of_digits ''0'' = Some 0
              \<longrightarrow> resolved.port cfg'
                  = (case full_data ''es_port'' of None \<Rightarrow> PNone | Some x \<Rightarrow> x))
         \<and> (supplied username_opt [] = None \<and> ES_USERNAME blank_environ = Some []
              \<longrightarrow> resolved.username cfg'
                  = (case full_data ''es_username'' of None \<Rightarrow> PNone | Some x \<Rightarrow> x))
         \<and> (supplied password_opt [] = None \<and> ES_PASSWORD blank_environ = Some []
              \<longrightarrow> resolved.password cfg'
                  = (case full_data ''es_password'' of None \<Rightarrow> PNone | Some x \<Rightarrow> x))" ..
  then have second: "configuration int_of_digits blank_environ full_files [] ?w = Inr cfg'"
    "resolved.host cfg' = PStr ''filehost'' \<and> resolved.port cfg' = PInt 9200
       \<and> resolved.username cfg' = PStr ''fileuser'' \<and> resolved.password cfg' = PNone"
    using s bv by (simp_all add: full_data_def)
  from first second s p1 p2 p3 p4 p5 d bv show ?thesis by simp
qed

section \<open>Runs that follow a list of effects\<close>

lemma answered_Nil [simp]: "answered respond []"
  by (simp add: answered_def)

lemma answered_append [simp]:
  "answered respond (xs @ ys) \<longleftrightarrow> answered respond xs \<and> answered respond ys"
  by (auto simp: answered_def)

lemma answered_Print [simp]: "answered respond [Print s]"
  by (simp add: answered_def)

lemma answered_Sleep [simp]: "answered respond [Sleep n]"
  by (simp add: answered_def)

lemma followsI:
  assumes "\<And>w x w'. m w = (Inr x, w') \<Longrightarrow>
      stdin w' = stdin w \<and> trace w' = trace w @ evs \<and> answered respond evs"
    and "\<And>w e w'. m w = (Inl e, w') \<Longrightarrow>
      stdin w' = stdin w
      \<and> (\<exists>before c. e = ElasticsearchException c \<and> (\<exists>s. fst (respond s c) = Raises)
            \<and> trace w' = trace w @ before @ [Call c] \<and> prefix (before @ [Call c]) evs
            \<and> answered respond before)"
  shows "follows respond m evs"
  unfolding follows_def
proof
  fix w
  obtain r w' where mw: "m w = (r, w')" by (cases "m w")
  show "case m w of
      (Inr x, w') \<Rightarrow> stdin w' = stdin w \<and> trace w' = trace w @ evs \<and> answered respond evs
    | (Inl e, w') \<Rightarrow> stdin w' = stdin w
        \<and> (\<exists>before c. e = ElasticsearchException c \<and> (\<exists>s. fst (respond s c) = Raises)
            \<and> trace w' = trace w @ before @ [Call c] \<and> prefix (before @ [Call c]) evs
            \<and> answered respond before)"
  proof (cases r)
    case (Inl e)
    with mw assms(2) [of w e w'] show ?thesis by simp
  next
    case (Inr x)
    with mw assms(1) [of w x w'] show ?thesis by simp
  qed
qed

lemma follows_Inr:
  assumes "follows respond m evs" and "m w = (Inr x, w')"
  shows "stdin w' = stdin w \<and> trace w' = trace w @ evs \<and> answered respond evs"
  using assms(1) [unfolded follows_def, rule_format, of w] assms(2) by simp

lemma follows_Inl:
  assumes "follows respond m evs" and "m w = (Inl e, w')"
  shows "stdin w' = stdin w
      \<and> (\<exists>before c. e = ElasticsearchException c \<and> (\<exists>s. fst (respond s c) = Raises)
            \<and> trace w' = trace w @ before @ [Call c] \<and> prefix (before @ [Call c]) evs
            \<and> answered respond before)"
  using assms(1) [unfolded follows_def, rule_format, of w] assms(2) by simp

lemma follows_return: "follows respond (return x) []"
  by (rule followsI) (simp_all add: return_def)

lemma follows_print: "follows respond (print s) [Print s]"
  by (rule followsI) (auto simp: print_def)

lemma follows_time_sleep: "follows respond (time_sleep n) [Sleep n]"
  by (rule followsI) (auto simp: time_sleep_def)

lemma follows_request: "follows respond (request respond c) [Call c]"
proof (rule followsI)
  fix w x w'
  assume "request respond c w = (Inr x, w')"
  then show "stdin w' = stdin w \<and> trace w' = trace w @ [Call c] \<and> answered respond [Call c]"
    by (cases "respond (cluster w) c"; cases "fst (respond (cluster w) c)")
      (auto simp: request_def answered_def intro: exI [of _ "cluster w"])
next
  fix w e w'
  assume r: "request respond c w = (Inl e, w')"
  then have 1: "stdin w' = stdin w" "e = ElasticsearchException c"
    "trace w' = trace w @ [] @ [Call c]" "fst (respond (cluster w) c) = Raises"
    by (cases "respond (cluster w) c"; cases "fst (respond (cluster w) c)";
        auto simp: request_def)+
  show "stdin w' = stdin w
      \<and> (\<exists>before c'. e = ElasticsearchException c' \<and> (\<exists>s. fst (respond s c') = Raises)
            \<and> trace w' = trace w @ before @ [Call c'] \<and> prefix (before @ [Call c']) [Call c]
            \<and> answered respond before)"
  proof (intro conjI exI [of _ "[]"] exI [of _ c])
    show "\<exists>s. fst (respond s c) = Raises" using 1(4) by blast
  qed (use 1 in simp_all)
qed

lemma follows_and_then:
  assumes m: "follows respond m xs" and f: "\<And>x. follows respond (f x) ys"
  shows "follows respond (and_then m f) (xs @ ys)"
proof (rule followsI)
  fix w y w'
  assume r: "and_then m f w = (Inr y, w')"
  obtain r1 w1 where mw: "m w = (r1, w1)" by (cases "m w")
  from r mw obtain x where x: "r1 = Inr x" and fx: "f x w1 = (Inr y, w')"
    by (cases r1) (simp_all add: and_then_def)
  from follows_Inr [OF m mw [unfolded x]] follows_Inr [OF f fx]
  show "stdin w' = stdin w \<and> trace w' = trace w @ xs @ ys \<and> answered respond (xs @ ys)"
    by simp
next
  fix w e w'
  assume r: "and_then m f w = (Inl e, w')"
  obtain r1 w1 where mw: "m w = (r1, w1)" by (cases "m w")
  show "stdin w' = stdin w
      \<and> (\<exists>before c. e = ElasticsearchException c \<and> (\<exists>s. fst (respond s c) = Raises)
            \<and> trace w' = trace w @ before @ [Call c] \<and> prefix (before @ [Call c]) (xs @ ys)
            \<and> answered respond before)"
  proof (cases r1)
    case (Inl e1)
    with r mw have "m w = (Inl e, w')" by (simp add: and_then_def)
    from follows_Inl [OF m this] obtain before c where
      "stdin w' = stdin w" "e = ElasticsearchException c" "\<exists>s. fst (respond s c) = Raises"
      "trace w' = trace w @ before @ [Call c]" "prefix (before @ [Call c]) xs"
      "answered respond before"
      by blast
    then show ?thesis by (intro conjI exI [of _ before] exI [of _ c]) simp_all
  next
    case (Inr x)
    with r mw have fx: "f x w1 = (Inl e, w')" by (simp add: and_then_def)
    from follows_Inr [OF m mw [unfolded Inr]]
    have 1: "stdin w1 = stdin w" "trace w1 = trace w @ xs" "answered respond xs"
      by simp_all
    from follows_Inl [OF f fx] obtain before c where 2:
      "stdin w' = stdin w1" "e = ElasticsearchException c" "\<exists>s. fst (respond s c) = Raises"
      "trace w' = trace w1 @ before @ [Call c]" "prefix (before @ [Call c]) ys"
      "answered respond before"
      by blast
    show ?thesis
    proof (intro conjI exI [of _ "xs @ before"] exI [of _ c])
      show "prefix ((xs @ before) @ [Call c]) (xs @ ys)" using 2(5) by simp
    qed (use 1 2 in simp_all)
  qed
qed

lemma follows_requests: "follows respond (requests respond cs) (map Call cs)"
proof (induction cs)
  case Nil
  show ?case by (simp add: follows_return)
next
  case (Cons c cs)
  have "follows respond (and_then (request respond c) (\<lambda>_. requests respond cs))
      ([Call c] @ map Call cs)"
    by (rule follows_and_then [OF follows_request Cons.IH])
  then show ?case by simp
qed

lemma follows_if:
  "follows respond m xs \<Longrightarrow> follows respond n ys
     \<Longrightarrow> follows respond (if b then m else n) (if b then xs else ys)"
  by simp

lemma follows_create_all: "follows respond (create_all respond idx old) (script idx old)"
proof -
  have "follows respond (create_all respond idx old)
     ([Call (Create ''elastalert'')] @ [Call (Create ''elastalert_status'')]
      @ [Call (Create ''elastalert_silence'')] @ [Call (Create ''elastalert_error'')]
      @ [Call (Create ''elastalert_past'')] @ [Sleep 2]
      @ [Call (PutMapping ''elastalert'' ''elastalert'' es_mapping)]
      @ [Call (PutMapping ''elastalert_status'' ''elastalert_status'' ess_mapping)]
      @ [Call (PutMapping ''elastalert_silence'' ''silence'' silence_mapping)]
      @ [Call (PutMapping ''elastalert_error'' ''elastalert_error'' error_mapping)]
      @ [Call (PutMapping ''elastalert_past'' ''past_elastalert'' past_mapping)]
      @ [Print (''New index '' @ idx @ '' created'')]
      @ (if old \<noteq> [] then
           [Print (''Copying all data from old index '' @ [CHR 0x27] @ old
                  @ [CHR 0x27] @ '' to new index '' @ [CHR 0x27] @ idx @ [CHR 0x27])]
           @ [Call (Reindex old idx)] @ []
         else [])
      @ [Print ''Done!''])" (is "follows _ _ ?evs")
    unfolding create_all_def
    by (intro follows_and_then follows_if follows_request follows_time_sleep follows_print
        follows_return)
  moreover have "script idx old = ?evs"
    by (simp add: script_def creations_def mappings_def)
  ultimately show ?thesis by (simp only:)
qed

lemma prefix_before:
  assumes "prefix (pre @ x # post) (A @ B)" and "x \<notin> set A"
  shows "prefix A pre"
proof -
  from assms(1) have "prefix pre (A @ B)" by (rule append_prefixD)
  moreover have "prefix A (A @ B)" by simp
  ultimately have "prefix pre A \<or> prefix A pre" by (rule prefix_same_cases)
  then show ?thesis
  proof
    assume "prefix pre A"
    then obtain zs where A: "A = pre @ zs" by (auto simp: prefix_def)
    show ?thesis
    proof (cases zs)
      case Nil
      with A show ?thesis by simp
    next
      case (Cons z zs')
      with A assms(1) have "prefix (x # post) (z # zs' @ B)" by simp
      then have "x = z" by simp
      with A Cons assms(2) show ?thesis by simp
    qed
  qed
qed

lemma prefix_within:
  assumes "prefix (d @ [x]) (A @ B)" and "y \<in> set A" and "y \<notin> set d"
  shows "prefix (d @ [x]) A"
proof -
  have "prefix A (A @ B)" by simp
  with assms(1) have "prefix (d @ [x]) A \<or> prefix A (d @ [x])" by (rule prefix_same_cases)
  then show ?thesis
  proof
    assume "prefix A (d @ [x])"
    then have "A = d @ [x] \<or> prefix A d" by simp
    then show ?thesis
    proof
      assume "prefix A d"
      then have "set A \<subseteq> set d" by (rule set_mono_prefix)
      with assms(2,3) show ?thesis by blast
    qed simp
  qed
qed

lemma provision_found:
  assumes "fst (respond (cluster w) (Exists idx)) = Returns True"
  shows "fst (provision respond idx old w) = Inr ()"
    and "trace (snd (provision respond idx old w)) = trace w @ [Call (Exists idx),
       Print (''Index '' @ idx @ '' already exists. Skipping index creation.'')]"
  using assms
  by (cases "respond (cluster w) (Exists idx)";
      simp add: provision_def and_then_def request_def print_def)+

lemma provision_raises:
  assumes "fst (respond (cluster w) (Exists idx)) = Raises"
  shows "fst (provision respond idx old w) = Inl (ElasticsearchException (Exists idx))"
    and "trace (snd (provision respond idx old w)) = trace w @ [Call (Exists idx)]"
  using assms
  by (cases "respond (cluster w) (Exists idx)";
      simp add: provision_def and_then_def request_def)+

lemma provision_not_found:
  assumes "fst (respond (cluster w) (Exists idx)) = Returns False"
  shows "(fst (provision respond idx old w) = Inr ()
          \<and> trace (snd (provision respond idx old w)) = trace w @ Call (Exists idx) # script idx old
          \<and> answered respond (script idx old))
       \<or> (\<exists>before c. fst (provision respond idx old w) = Inl (ElasticsearchException c)
            \<and> (\<exists>s. fst (respond s c) = Raises)
            \<and> trace (snd (provision respond idx old w))
                = trace w @ Call (Exists idx) # before @ [Call c]
            \<and> prefix (before @ [Call c]) (script idx old)
            \<and> answered respond before)"
proof -
  obtain s' where r: "respond (cluster w) (Exists idx) = (Returns False, s')"
    using assms by (cases "respond (cluster w) (Exists idx)") simp
  let ?w1 = "w\<lparr>cluster := s', trace := trace w @ [Call (Exists idx)]\<rparr>"
  have p: "provision respond idx old w = create_all respond idx old ?w1"
    using r by (simp add: provision_def and_then_def request_def)
  obtain res w' where c: "create_all respond idx old ?w1 = (res, w')"
    by (cases "create_all respond idx old ?w1")
  show ?thesis
  proof (cases res)
    case (Inr u)
    from follows_Inr [OF follows_create_all c [unfolded Inr]]
    show ?thesis using p c Inr by simp
  next
    case (Inl e)
    from follows_Inl [OF follows_create_all c [unfolded Inl]] obtain before c' where
      "e = ElasticsearchException c'" "\<exists>s. fst (respond s c') = Raises"
      "trace w' = trace ?w1 @ before @ [Call c']" "prefix (before @ [Call c']) (script idx old)"
      "answered respond before"
      by blast
    then have "fst (provision respond idx old w) = Inl (ElasticsearchException c')
            \<and> (\<exists>s. fst (respond s c') = Raises)
            \<and> trace (snd (provision respond idx old w))
                = trace w @ Call (Exists idx) # before @ [Call c']
            \<and> prefix (before @ [Call c']) (script idx old)
            \<and> answered respond before"
      using p c Inl by simp
    then show ?thesis by blast
  qed
qed

lemma provision_events:
  "\<exists>evs. trace (snd (provision respond idx old w)) = trace w @ Call (Exists idx) # evs
     \<and> (evs = [Print (''Index '' @ idx @ '' already exists. Skipping index creation.'')]
         \<or> prefix evs (script idx old))"
proof (cases "fst (respond (cluster w) (Exists idx))")
  case Raises
  from provision_raises(2) [where respond = respond and w = w and idx = idx and old = old, OF this]
  show ?thesis by simp
next
  case (Returns b)
  show ?thesis
  proof (cases b)
    case True
    with Returns have t: "fst (respond (cluster w) (Exists idx)) = Returns True" by simp
    from provision_found(2) [where respond = respond and w = w and idx = idx and old = old, OF t]
    show ?thesis by simp
  next
    case False
    with Returns have f: "fst (respond (cluster w) (Exists idx)) = Returns False" by simp
    from provision_not_found [where respond = respond and w = w and idx = idx and old = old, OF f]
    show ?thesis
    proof
      assume "fst (provision respond idx old w) = Inr ()
          \<and> trace (snd (provision respond idx old w)) = trace w @ Call (Exists idx) # script idx old
          \<and> answered respond (script idx old)"
      then show ?thesis by simp
    next
      assume "\<exists>before c. fst (provision respond idx old w) = Inl (ElasticsearchException c)
            \<and> (\<exists>s. fst (respond s c) = Raises)
            \<and> trace (snd (provision respond idx old w))
                = trace w @ Call (Exists idx) # before @ [Call c]
            \<and> prefix (before @ [Call c]) (script idx old)
            \<and> answered respond before"
      then obtain before c where
        "trace (snd (provision respond idx old w)) = trace w @ Call (Exists idx) # before @ [Call c]"
        "prefix (before @ [Call c]) (script idx old)"
        by blast
      then show ?thesis by (intro exI [of _ "before @ [Call c]"]) simp
    qed
  qed
qed

lemma main_not_found:
  assumes "parse_args to_int env argv = Inr a"
      and "settings to_int fs a w = (Inr (es, idx, old), w1)"
      and "fst (respond es (cluster w) (Exists idx)) = Returns False"
  shows "(fst (main to_int respond env fs argv w) = Inr ()
          \<and> trace (snd (main to_int respond env fs argv w))
              = trace w1 @ Call (Exists idx) # script idx old
          \<and> answered (respond es) (script idx old))
       \<or> (\<exists>before c. fst (main to_int respond env fs argv w) = Inl (ElasticsearchException c)
            \<and> (\<exists>s. fst (respond es s c) = Raises)
            \<and> trace (snd (main to_int respond env fs argv w))
                = trace w1 @ Call (Exists idx) # before @ [Call c]
            \<and> prefix (before @ [Call c]) (script idx old)
            \<and> answered (respond es) before)"
proof -
  have m: "main to_int respond env fs argv w = provision (respond es) idx old w1"
    by (rule main_provision [OF assms(1,2)])
  have "cluster w1 = cluster w" using settings_world [OF assms(2)] by simp
  with assms(3) have "fst (respond es (cluster w1) (Exists idx)) = Returns False" by simp
  from provision_not_found [where respond = "respond es" and w = w1 and idx = idx and old = old,
      OF this]
  show ?thesis unfolding m .
qed

section \<open>Creation, delay, mappings and copy\<close>

lemma script_creations:
  "script idx old = map Call creations @ ([Sleep 2] @ map Call mappings
     @ [Print (''New index '' @ idx @ '' created'')]
     @ (if old \<noteq> [] then
          [Print (''Copying all data from old index '' @ [CHR 0x27] @ old
                  @ [CHR 0x27] @ '' to new index '' @ [CHR 0x27] @ idx @ [CHR 0x27]),
           Call (Reindex old idx)]
        else [])
     @ [Print ''Done!''])"
  by (simp add: script_def)

lemma script_delay:
  "script idx old = (map Call creations @ [Sleep 2]) @ (map Call mappings
     @ [Print (''New index '' @ idx @ '' created'')]
     @ (if old \<noteq> [] then
          [Print (''Copying all data from old index '' @ [CHR 0x27] @ old
                  @ [CHR 0x27] @ '' to new index '' @ [CHR 0x27] @ idx @ [CHR 0x27]),
           Call (Reindex old idx)]
        else [])
     @ [Print ''Done!''])"
  by (simp add: script_def)

lemma script_mappings:
  "script idx old = (map Call creations @ [Sleep 2] @ map Call mappings)
     @ ([Print (''New index '' @ idx @ '' created'')]
     @ (if old \<noteq> [] then
          [Print (''Copying all data from old index '' @ [CHR 0x27] @ old
                  @ [CHR 0x27] @ '' to new index '' @ [CHR 0x27] @ idx @ [CHR 0x27]),
           Call (Reindex old idx)]
        else [])
     @ [Print ''Done!''])"
  by (simp add: script_def)

lemma Call_in_script:
  "Call c \<in> set (script idx old) \<longleftrightarrow>
     c \<in> set creations \<or> c \<in> set mappings \<or> (old \<noteq> [] \<and> c = Reindex old idx)"
  by (auto simp: script_def)

lemma PutMapping_not_creation: "PutMapping i d b \<notin> set creations"
  by (simp add: creations_def)

lemma Reindex_not_creation_or_mapping:
  "Reindex src dst \<notin> set creations" "Reindex src dst \<notin> set mappings"
  by (simp_all add: creations_def mappings_def)

lemma main_events:
  assumes "parse_args to_int env argv = Inr a"
      and "settings to_int fs a w = (Inr (es, idx, old), w1)"
  shows "\<exists>evs. trace (snd (main to_int respond env fs argv w)) = trace w1 @ Call (Exists idx) # evs
     \<and> (evs = [Print (''Index '' @ idx @ '' already exists. Skipping index creation.'')]
         \<or> prefix evs (script idx old))"
  unfolding main_provision [OF assms] by (rule provision_events)

lemma local_run:
  "parse_args int_of_digits no_environ (local_argv @ [OptIndex i, OptOldIndex old])
     = Inr ((defaults no_environ)\<lparr>args.host := Some ''localhost'', args.port := Some 9200,
          ssl := Some False, no_auth := Some True, args.url_prefix := Some [],
          index := Some i, old_index := Some old\<rparr>)"
  by (simp add: parse_args_def local_argv_def int_of_digits_def digit_def no_environ_def)

lemma local_settings:
  "\<exists>es. settings int_of_digits Map.empty
     ((defaults no_environ)\<lparr>args.host := Some ''localhost'', args.port := Some 9200,
          ssl := Some False, no_auth := Some True, args.url_prefix := Some [],
          index := Some i, old_index := Some old\<rparr>) (start [] s)
     = (Inr (es, if i = [] then ''elastalert_status'' else i, old), start [] s)"
  by (simp add: settings_def resolve_def choose_filename_def isfile_def interactive_def
      and_then_def return_def str_or_def opt_str_def target_index_def source_index_def
      defaults_def no_environ_def)

subsection \<open>The cluster along a run\<close>

lemma request_accepted:
  assumes "fst (respond (cluster w) c) \<noteq> Raises"
  shows "\<exists>b. request respond c w
     = (Inr b, w\<lparr>cluster := snd (respond (cluster w) c), trace := trace w @ [Call c]\<rparr>)"
proof (cases "respond (cluster w) c")
  case (Pair r s')
  with assms obtain b where "r = Returns b" by (cases r) simp_all
  with Pair show ?thesis by (simp add: request_def)
qed

lemma request_refused:
  assumes "fst (respond (cluster w) c) = Raises"
  shows "request respond c w
     = (Inl (ElasticsearchException c),
        w\<lparr>cluster := snd (respond (cluster w) c), trace := trace w @ [Call c]\<rparr>)"
proof (cases "respond (cluster w) c")
  case (Pair r s')
  with assms show ?thesis by (simp add: request_def)
qed

lemma requests_accepted:
  "accepts respond (cluster w) cs \<Longrightarrow>
     requests respond cs w
       = (Inr (), w\<lparr>cluster := state_after respond (cluster w) cs,
                     trace := trace w @ map Call cs\<rparr>)"
proof (induction cs arbitrary: w)
  case Nil
  show ?case by (simp add: return_def)
next
  case (Cons c cs)
  let ?w' = "w\<lparr>cluster := snd (respond (cluster w) c), trace := trace w @ [Call c]\<rparr>"
  from Cons.prems have 1: "fst (respond (cluster w) c) \<noteq> Raises"
    and 2: "accepts respond (cluster ?w') cs" by simp_all
  from request_accepted [where respond = respond and w = w and c = c, OF 1]
  obtain b where r: "request respond c w = (Inr b, ?w')" ..
  have "requests respond (c # cs) w = requests respond cs ?w'"
    using r by (simp add: and_then_def)
  also have "\<dots> = (Inr (), ?w'\<lparr>cluster := state_after respond (cluster ?w') cs,
      trace := trace ?w' @ map Call cs\<rparr>)"
    by (rule Cons.IH [OF 2])
  finally show ?case by simp
qed

lemma requests_refused:
  "accepts respond (cluster w) pre \<Longrightarrow>
   fst (respond (state_after respond (cluster w) pre) c) = Raises \<Longrightarrow>
     requests respond (pre @ c # post) w
       = (Inl (ElasticsearchException c),
          w\<lparr>cluster := snd (respond (state_after respond (cluster w) pre) c),
            trace := trace w @ map Call (pre @ [c])\<rparr>)"
proof (induction pre arbitrary: w)
  case Nil
  then have "fst (respond (cluster w) c) = Raises" by simp
  from request_refused [where respond = respond and w = w and c = c, OF this]
  show ?case by (simp add: and_then_def)
next
  case (Cons x pre)
  let ?w' = "w\<lparr>cluster := snd (respond (cluster w) x), trace := trace w @ [Call x]\<rparr>"
  from Cons.prems have 1: "fst (respond (cluster w) x) \<noteq> Raises"
    and 2: "accepts respond (cluster ?w') pre"
    and 3: "fst (respond (state_after respond (cluster ?w') pre) c) = Raises"
    by simp_all
  from request_accepted [where respond = respond and w = w and c = x, OF 1]
  obtain b where r: "request respond x w = (Inr b, ?w')" ..
  have "requests respond ((x # pre) @ c # post) w = requests respond (pre @ c # post) ?w'"
    using r by (simp add: and_then_def)
  also note Cons.IH [OF 2 3]
  finally show ?case by simp
qed

lemma create_all_requests:
  "create_all respond idx old =
     and_then (requests respond creations) (\<lambda>_.
     and_then (time_sleep 2) (\<lambda>_.
     and_then (requests respond mappings) (\<lambda>_.
     and_then (print (''New index '' @ idx @ '' created'')) (\<lambda>_.
     and_then
       (if old \<noteq> [] then
          and_then
            (print (''Copying all data from old index '' @ [CHR 0x27] @ old
                    @ [CHR 0x27] @ '' to new index '' @ [CHR 0x27] @ idx @ [CHR 0x27]))
            (\<lambda>_. and_then (request respond (Reindex old idx)) (\<lambda>_. return ()))
        else return ())
       (\<lambda>_. print ''Done!'')))))"
  by (simp only: create_all_def creations_def mappings_def requests.simps and_then_assoc
      and_then_return)

lemma accepts_append:
  "accepts respond s (xs @ ys) \<longleftrightarrow>
     accepts respond s xs \<and> accepts respond (state_after respond s xs) ys"
  by (induction xs arbitrary: s) simp_all

lemma follows_grows:
  assumes "follows respond m evs"
  shows "\<exists>xs. trace (snd (m w)) = trace w @ xs"
proof -
  obtain r w' where mw: "m w = (r, w')" by (cases "m w")
  show ?thesis
  proof (cases r)
    case (Inl e)
    from follows_Inl [OF assms mw [unfolded Inl]] mw show ?thesis by auto
  next
    case (Inr x)
    from follows_Inr [OF assms mw [unfolded Inr]] mw show ?thesis by auto
  qed
qed

lemma prefix_inside:
  assumes "prefix (d @ [x]) (A @ B)" and "x \<notin> set B"
  shows "prefix (d @ [x]) A"
proof -
  have "prefix A (A @ B)" by simp
  with assms(1) have "prefix (d @ [x]) A \<or> prefix A (d @ [x])" by (rule prefix_same_cases)
  then show ?thesis
  proof
    assume "prefix A (d @ [x])"
    then have "A = d @ [x] \<or> prefix A d" by simp
    then show ?thesis
    proof
      assume "prefix A d"
      then obtain d' where d: "d = A @ d'" by (auto simp: prefix_def)
      with assms(1) have "prefix (d' @ [x]) B" by simp
      then have "set (d' @ [x]) \<subseteq> set B" by (rule set_mono_prefix)
      with assms(2) show ?thesis by simp
    qed simp
  qed
qed

lemma creation_not_later:
  assumes "c \<in> set creations"
  shows "Call c \<notin> set ([Sleep 2] @ map Call mappings
     @ [Print (''New index '' @ idx @ '' created'')]
     @ (if old \<noteq> [] then
          [Print (''Copying all data from old index '' @ [CHR 0x27] @ old
                  @ [CHR 0x27] @ '' to new index '' @ [CHR 0x27] @ idx @ [CHR 0x27]),
           Call (Reindex old idx)]
        else [])
     @ [Print ''Done!''])"
  using assms by (auto simp: creations_def mappings_def)

lemma create_all_refused:
  assumes "creations = pre @ c # post"
      and "accepts respond (cluster w) pre"
      and "fst (respond (state_after respond (cluster w) pre) c) = Raises"
  shows "fst (create_all respond idx old w) = Inl (ElasticsearchException c)"
    and "trace (snd (create_all respond idx old w)) = trace w @ map Call (pre @ [c])"
proof -
  have "requests respond creations w
      = (Inl (ElasticsearchException c),
         w\<lparr>cluster := snd (respond (state_after respond (cluster w) pre) c),
           trace := trace w @ map Call (pre @ [c])\<rparr>)"
    unfolding assms(1) by (rule requests_refused [OF assms(2,3)])
  then have "create_all respond idx old w
      = (Inl (ElasticsearchException c),
         w\<lparr>cluster := snd (respond (state_after respond (cluster w) pre) c),
           trace := trace w @ map Call (pre @ [c])\<rparr>)"
    unfolding create_all_requests by (rule and_then_Inl)
  then show "fst (create_all respond idx old w) = Inl (ElasticsearchException c)"
    and "trace (snd (create_all respond idx old w)) = trace w @ map Call (pre @ [c])"
    by simp_all
qed

lemma create_all_accepted:
  assumes "accepts respond (cluster w) creations"
  shows "prefix (trace w @ map Call creations @ [Sleep 2])
           (trace (snd (create_all respond idx old w)))"
proof -
  let ?w2 = "w\<lparr>cluster := state_after respond (cluster w) creations,
                trace := trace w @ map Call creations\<rparr>"
  let ?w3 = "?w2\<lparr>trace := trace ?w2 @ [Sleep 2]\<rparr>"
  define rest :: "unit \<Rightarrow> (_, unit) action" where
    "rest = (\<lambda>_. and_then (requests respond mappings) (\<lambda>_.
       and_then (print (''New index '' @ idx @ '' created'')) (\<lambda>_.
       and_then
         (if old \<noteq> [] then
            and_then
              (print (''Copying all data from old index '' @ [CHR 0x27] @ old
                      @ [CHR 0x27] @ '' to new index '' @ [CHR 0x27] @ idx @ [CHR 0x27]))
              (\<lambda>_. and_then (request respond (Reindex old idx)) (\<lambda>_. return ()))
          else return ())
         (\<lambda>_. print ''Done!''))))"
  have c: "create_all respond idx old
      = and_then (requests respond creations) (\<lambda>_. and_then (time_sleep 2) rest)"
    unfolding create_all_requests rest_def ..
  have "requests respond creations w = (Inr (), ?w2)"
    by (rule requests_accepted [OF assms])
  then have "create_all respond idx old w = and_then (time_sleep 2) rest ?w2"
    unfolding c by (rule and_then_Inr)
  also have "\<dots> = rest () ?w3"
    by (simp add: and_then_def time_sleep_def)
  finally have run: "create_all respond idx old w = rest () ?w3" .
  have "follows respond (rest ())
     (map Call mappings @ [Print (''New index '' @ idx @ '' created'')]
      @ (if old \<noteq> [] then
           [Print (''Copying all data from old index '' @ [CHR 0x27] @ old
                  @ [CHR 0x27] @ '' to new index '' @ [CHR 0x27] @ idx @ [CHR 0x27])]
           @ [Call (Reindex old idx)] @ []
         else [])
      @ [Print ''Done!''])"
    unfolding rest_def
    by (intro follows_and_then follows_if follows_requests follows_request follows_print
        follows_return)
  from follows_grows [OF this, of ?w3] obtain xs where
    "trace (snd (rest () ?w3)) = trace ?w3 @ xs" ..
  with run have "trace (snd (create_all respond idx old w))
      = (trace w @ map Call creations @ [Sleep 2]) @ xs"
    by simp
  then show ?thesis by (simp only: prefixI)
qed

lemma create_all_copies:
  assumes "accepts respond (cluster w) (creations @ mappings)" and "old \<noteq> []"
  shows "\<exists>xs. trace (snd (create_all respond idx old w)) = trace w @ xs
           \<and> Call (Reindex old idx) \<in> set xs"
proof -
  let ?w2 = "w\<lparr>cluster := state_after respond (cluster w) creations,
                trace := trace w @ map Call creations\<rparr>"
  let ?w3 = "?w2\<lparr>trace := trace ?w2 @ [Sleep 2]\<rparr>"
  let ?w4 = "?w3\<lparr>cluster := state_after respond (cluster ?w3) mappings,
                  trace := trace ?w3 @ map Call mappings\<rparr>"
  define finish :: "unit \<Rightarrow> (_, unit) action" where
    "finish = (\<lambda>_.
       and_then (print (''New index '' @ idx @ '' created'')) (\<lambda>_.
       and_then
         (if old \<noteq> [] then
            and_then
              (print (''Copying all data from old index '' @ [CHR 0x27] @ old
                      @ [CHR 0x27] @ '' to new index '' @ [CHR 0x27] @ idx @ [CHR 0x27]))
              (\<lambda>_. and_then (request respond (Reindex old idx)) (\<lambda>_. return ()))
          else return ())
         (\<lambda>_. print ''Done!'')))"
  have c: "create_all respond idx old
      = and_then (requests respond creations) (\<lambda>_. and_then (time_sleep 2)
          (\<lambda>_. and_then (requests respond mappings) finish))"
    unfolding create_all_requests finish_def ..
  from assms(1) have a1: "accepts respond (cluster w) creations"
    and a2: "accepts respond (cluster ?w3) mappings"
    by (simp_all add: accepts_append)
  have "requests respond creations w = (Inr (), ?w2)"
    by (rule requests_accepted [OF a1])
  then have "create_all respond idx old w
      = and_then (time_sleep 2) (\<lambda>_. and_then (requests respond mappings) finish) ?w2"
    unfolding c by (rule and_then_Inr)
  also have "\<dots> = and_then (requests respond mappings) finish ?w3"
    by (simp add: and_then_def time_sleep_def)
  also have "\<dots> = finish () ?w4"
    by (rule and_then_Inr [where m = "requests respond mappings" and f = finish,
          OF requests_accepted [OF a2]])
  finally have run: "create_all respond idx old w = finish () ?w4" .
  have "\<exists>ys. trace (snd (finish () w')) = trace w' @ ys \<and> Call (Reindex old idx) \<in> set ys"
    for w' :: "'a world"
  proof (cases "respond (cluster w') (Reindex old idx)")
    case (Pair r s')
    show ?thesis
      unfolding finish_def using assms(2) Pair
      by (cases r) (simp_all add: and_then_def print_def request_def return_def)
  qed
  from this [of ?w4] obtain ys where "trace (snd (finish () ?w4)) = trace ?w4 @ ys"
    and "Call (Reindex old idx) \<in> set ys"
    by blast
  then have "trace (snd (create_all respond idx old w))
      = trace w @ (map Call creations @ [Sleep 2] @ map Call mappings @ ys)
    \<and> Call (Reindex old idx) \<in> set (map Call creations @ [Sleep 2] @ map Call mappings @ ys)"
    unfolding run by simp
  then show ?thesis ..
qed

lemma provision_not_found_eq:
  assumes "respond (cluster w) (Exists idx) = (Returns False, s1)"
  shows "provision respond idx old w
     = create_all respond idx old (w\<lparr>cluster := s1, trace := trace w @ [Call (Exists idx)]\<rparr>)"
  using assms by (simp add: provision_def and_then_def request_def)

lemma main_create_all:
  assumes "parse_args to_int env argv = Inr a"
      and "settings to_int fs a w = (Inr (es, idx, old), w1)"
      and "respond es (cluster w) (Exists idx) = (Returns False, s1)"
  shows "main to_int respond env fs argv w
     = create_all (respond es) idx old
         (w1\<lparr>cluster := s1, trace := trace w1 @ [Call (Exists idx)]\<rparr>)"
proof -
  have "cluster w1 = cluster w" using settings_world [OF assms(2)] by simp
  with assms(3) have "respond es (cluster w1) (Exists idx) = (Returns False, s1)" by simp
  then have "provision (respond es) idx old w1
     = create_all (respond es) idx old
         (w1\<lparr>cluster := s1, trace := trace w1 @ [Call (Exists idx)]\<rparr>)"
    by (rule provision_not_found_eq)
  then show ?thesis unfolding main_provision [OF assms(1,2)] .
qed

subsection \<open>A creation request that fails\<close>

text \<open>
  The target \<^verbatim>\<open>foo\<close> does not exist and \<^verbatim>\<open>elastalert_status\<close> does: the second creation
  request raises, the run ends with that exception, and the three remaining creation
  requests and the five mapping requests are never sent.
\<close>

theorem second_creation_fails_counterexample:
  "main int_of_digits sample_cluster no_environ Map.empty
     (local_argv @ [OptIndex ''foo'', OptOldIndex []]) (start [] [''elastalert_status''])
   = (Inl (ElasticsearchException (Create ''elastalert_status'')),
      \<lparr>stdin = [], cluster = [''elastalert_status'', ''elastalert''],
       trace = [Call (Exists ''foo''), Call (Create ''elastalert''),
                Call (Create ''elastalert_status'')]\<rparr>)"
  by (simp add: run_defs)

text \<open>
  C3 (as amended). For every run that reaches the creation step, the five creation
  requests are sent one after the other with no handling of errors: when the cluster
  refuses one of them, the run ends with the exception of the first creation request that
  raises, after the creation requests before it and nothing else; no later creation
  request, no delay and no mapping request is sent.
\<close>

text \<open>
  C3 (as amended). For every run that reaches the creation step, the five creation
  requests are sent one after the other with no handling of errors. When the cluster,
  having answered the creation requests before it, refuses a creation request in the state
  in which it receives it, the run ends with the exception of that request, after the
  creation requests before it and nothing else: no later creation request, no delay and no
  mapping request is sent. Conversely, a run that ends with the exception of a creation
  request has sent exactly the creation requests up to that one.
\<close>

theorem creation_failure_ends_run:
  assumes "parse_args to_int env argv = Inr a"
      and "settings to_int fs a w = (Inr (es, idx, old), w1)"
      and "respond es (cluster w) (Exists idx) = (Returns False, s1)"
  shows "(creations = pre @ c # post \<and> accepts (respond es) s1 pre
            \<and> fst (respond es (state_after (respond es) s1 pre) c) = Raises
          \<longrightarrow> fst (main to_int respond env fs argv w) = Inl (ElasticsearchException c)
              \<and> trace (snd (main to_int respond env fs argv w))
                  = trace w1 @ Call (Exists idx) # map Call (pre @ [c]))
       \<and> (\<forall>c'\<in>set creations.
            fst (main to_int respond env fs argv w) = Inl (ElasticsearchException c')
            \<longrightarrow> (\<exists>pre' post'. creations = pre' @ c' # post'
                  \<and> trace (snd (main to_int respond env fs argv w))
                      = trace w1 @ Call (Exists idx) # map Call (pre' @ [c'])))"
proof (intro conjI impI ballI)
  let ?run = "main to_int respond env fs argv w"
  let ?w1 = "w1\<lparr>cluster := s1, trace := trace w1 @ [Call (Exists idx)]\<rparr>"
  have m: "?run = create_all (respond es) idx old ?w1"
    by (rule main_create_all [where respond = respond, OF assms])
  {
    assume h: "creations = pre @ c # post \<and> accepts (respond es) s1 pre
        \<and> fst (respond es (state_after (respond es) s1 pre) c) = Raises"
    then have 1: "creations = pre @ c # post"
      and 2: "accepts (respond es) (cluster ?w1) pre"
      and 3: "fst (respond es (state_after (respond es) (cluster ?w1) pre) c) = Raises"
      by simp_all
    from create_all_refused [OF 1 2 3, of idx old]
    show "fst ?run = Inl (ElasticsearchException c)"
      and "trace (snd ?run) = trace w1 @ Call (Exists idx) # map Call (pre @ [c])"
      unfolding m by simp_all
  }
  fix c'
  assume c': "c' \<in> set creations" and r: "fst ?run = Inl (ElasticsearchException c')"
  have nf: "fst (respond es (cluster w) (Exists idx)) = Returns False"
    using assms(3) by simp
  from main_not_found [where respond = respond, OF assms(1,2) nf]
  show "\<exists>pre' post'. creations = pre' @ c' # post'
      \<and> trace (snd ?run) = trace w1 @ Call (Exists idx) # map Call (pre' @ [c'])"
  proof
    assume "fst ?run = Inr () \<and> trace (snd ?run) = trace w1 @ Call (Exists idx) # script idx old
          \<and> answered (respond es) (script idx old)"
    with r show ?thesis by simp
  next
    assume "\<exists>before c. fst ?run = Inl (ElasticsearchException c)
            \<and> (\<exists>s. fst (respond es s c) = Raises)
            \<and> trace (snd ?run) = trace w1 @ Call (Exists idx) # before @ [Call c]
            \<and> prefix (before @ [Call c]) (script idx old)
            \<and> answered (respond es) before"
    then obtain before c'' where "fst ?run = Inl (ElasticsearchException c'')"
      and t: "trace (snd ?run) = trace w1 @ Call (Exists idx) # before @ [Call c'']"
      and p: "prefix (before @ [Call c'']) (script idx old)"
      by blast
    with r have same: "c'' = c'" by simp
    have "prefix (before @ [Call c']) (map Call creations)"
      using p [unfolded same script_creations] creation_not_later [OF c']
      by (rule prefix_inside)
    then obtain zs where "map Call creations = (before @ [Call c']) @ zs"
      by (auto simp: prefix_def)
    then obtain pre' post' where "creations = pre' @ c' # post'" and "map Call pre' = before"
      by (auto simp: map_eq_append_conv)
    moreover from this t same
    have "trace (snd ?run) = trace w1 @ Call (Exists idx) # map Call (pre' @ [c'])"
      by auto
    ultimately show ?thesis by blast
  qed
qed

theorem creation_failure_ends_run_witness:
  "fst (main int_of_digits sample_cluster no_environ Map.empty
        (local_argv @ [OptIndex ''foo'', OptOldIndex []]) (start [] [''elastalert_status'']))
      = Inl (ElasticsearchException (Create ''elastalert_status''))
   \<and> trace (snd (main int_of_digits sample_cluster no_environ Map.empty
        (local_argv @ [OptIndex ''foo'', OptOldIndex []]) (start [] [''elastalert_status''])))
      = [Call (Exists ''foo''), Call (Create ''elastalert''), Call (Create ''elastalert_status'')]
   \<and> Create ''elastalert_status'' \<in> set creations
   \<and> (\<exists>pre' post'. creations = pre' @ Create ''elastalert_status'' # post'
        \<and> trace (snd (main int_of_digits sample_cluster no_environ Map.empty
             (local_argv @ [OptIndex ''foo'', OptOldIndex []]) (start [] [''elastalert_status''])))
           = Call (Exists ''foo'') # map Call (pre' @ [Create ''elastalert_status'']))"
proof -
  let ?argv = "local_argv @ [OptIndex ''foo'', OptOldIndex []]"
  let ?w = "start [] [''elastalert_status'']"
  let ?run = "main int_of_digits sample_cluster no_environ Map.empty ?argv ?w"
  let ?pre = "[Create ''elastalert'']"
  let ?c = "Create ''elastalert_status''"
  let ?post = "[Create ''elastalert_silence'', Create ''elastalert_error'', Create ''elastalert_past'']"
  from local_settings [where i = "''foo''" and old = "[]" and s = "[''elastalert_status'']"]
  obtain es where
    2: "settings int_of_digits Map.empty
     ((defaults no_environ)\<lparr>args.host := Some ''localhost'', args.port := Some 9200,
          ssl := Some False, no_auth := Some True, args.url_prefix := Some [],
          index := Some ''foo'', old_index := Some []\<rparr>) ?w
     = (Inr (es, ''foo'', []), ?w)"
    by auto
  have 3: "sample_cluster es (cluster ?w) (Exists ''foo'') = (Returns False, [''elastalert_status''])"
    by (simp add: start_def)
  have 4: "creations = ?pre @ ?c # ?post \<and> accepts (sample_cluster es) [''elastalert_status''] ?pre
      \<and> fst (sample_cluster es (state_after (sample_cluster es) [''elastalert_status''] ?pre) ?c)
          = Raises"
    by (simp add: creations_def)
  from creation_failure_ends_run [where respond = sample_cluster and pre = ?pre and c = ?c
      and post = ?post, OF local_run 2 3, THEN conjunct1, THEN mp, OF 4]
  have 5: "fst ?run = Inl (ElasticsearchException ?c)"
    and 6: "trace (snd ?run) = [Call (Exists ''foo''), Call (Create ''elastalert''), Call ?c]"
    by (simp_all add: start_def)
  have 7: "?c \<in> set creations" by (simp add: creations_def)
  from creation_failure_ends_run [where respond = sample_cluster, OF local_run 2 3,
      THEN conjunct2, THEN bspec, OF 7, THEN mp, OF 5]
  have "\<exists>pre' post'. creations = pre' @ ?c # post'
      \<and> trace (snd ?run) = Call (Exists ''foo'') # map Call (pre' @ [?c])"
    by (simp add: start_def)
  with 5 6 7 show ?thesis by simp
qed

subsection \<open>The order of creations, delay and mappings\<close>

text \<open>
  The target \<^verbatim>\<open>elastalert_status\<close> does not exist and \<^verbatim>\<open>elastalert\<close> does: the first creation
  request raises and no other index is created, the target included.
\<close>

theorem sibling_exists_counterexample:
  "main int_of_digits sample_cluster no_environ Map.empty
     (local_argv @ [OptIndex ''elastalert_status'', OptOldIndex []]) (start [] [''elastalert''])
   = (Inl (ElasticsearchException (Create ''elastalert'')),
      \<lparr>stdin = [], cluster = [''elastalert''],
       trace = [Call (Exists ''elastalert_status''), Call (Create ''elastalert'')]\<rparr>)"
  by (simp add: run_defs)

text \<open>
  C7 (as amended). For every run in which the target index does not already exist: no
  mapping request is sent before all five creation requests, for \<^verbatim>\<open>elastalert\<close>,
  \<^verbatim>\<open>elastalert_status\<close>, \<^verbatim>\<open>elastalert_silence\<close>, \<^verbatim>\<open>elastalert_error\<close> and \<^verbatim>\<open>elastalert_past\<close> in
  this order, and the delay of two seconds after them; and when the cluster refuses no
  creation request, all five are sent, whatever the target is, followed by the delay.
\<close>

text \<open>
  C7 (as amended). For every run in which the target index does not already exist: no
  mapping request is sent before all five creation requests, for \<^verbatim>\<open>elastalert\<close>,
  \<^verbatim>\<open>elastalert_status\<close>, \<^verbatim>\<open>elastalert_silence\<close>, \<^verbatim>\<open>elastalert_error\<close> and \<^verbatim>\<open>elastalert_past\<close> in
  this order, and the delay of two seconds after them; and when no creation request raises
  in the run (the cluster answers each of the five in the state in which it receives it;
  or, said of the result, the run does not end with the exception of a creation request),
  all five are sent, whatever the target is, followed by the delay.
\<close>

theorem mappings_after_creations_and_delay:
  assumes "parse_args to_int env argv = Inr a"
      and "settings to_int fs a w = (Inr (es, idx, old), w1)"
      and "respond es (cluster w) (Exists idx) = (Returns False, s1)"
  shows "\<exists>evs. trace (snd (main to_int respond env fs argv w)) = trace w1 @ Call (Exists idx) # evs
     \<and> (\<forall>pre i d b post. evs = pre @ Call (PutMapping i d b) # post
           \<longrightarrow> prefix (map Call creations @ [Sleep 2]) pre)
     \<and> (accepts (respond es) s1 creations
           \<longrightarrow> prefix (map Call creations @ [Sleep 2]) evs)
     \<and> ((\<forall>c\<in>set creations.
            fst (main to_int respond env fs argv w) \<noteq> Inl (ElasticsearchException c))
           \<longrightarrow> prefix (map Call creations @ [Sleep 2]) evs)"
proof -
  let ?run = "main to_int respond env fs argv w"
  let ?A = "map Call creations @ [Sleep 2]"
  let ?w1 = "w1\<lparr>cluster := s1, trace := trace w1 @ [Call (Exists idx)]\<rparr>"
  have nf: "fst (respond es (cluster w) (Exists idx)) = Returns False"
    using assms(3) by simp
  have m: "?run = create_all (respond es) idx old ?w1"
    by (rule main_create_all [where respond = respond, OF assms])
  have ordered: "prefix ?A pre"
    if "prefix (pre @ Call (PutMapping i d b) # post) (script idx old)" for pre i d b post
  proof -
    have "Call (PutMapping i d b) \<notin> set ?A"
      using PutMapping_not_creation [of i d b] by auto
    from prefix_before [OF that [unfolded script_delay] this] show ?thesis .
  qed
  have accepted: "prefix ?A evs"
    if "trace (snd ?run) = trace w1 @ Call (Exists idx) # evs"
      and "accepts (respond es) s1 creations" for evs
  proof -
    from that(2) have "accepts (respond es) (cluster ?w1) creations" by simp
    from create_all_accepted [OF this, of idx old]
    have "prefix ((trace w1 @ [Call (Exists idx)]) @ ?A) ((trace w1 @ [Call (Exists idx)]) @ evs)"
      unfolding m [symmetric] that(1) by simp
    then show ?thesis by (simp only: same_prefix_prefix)
  qed
  from main_not_found [where respond = respond, OF assms(1,2) nf] show ?thesis
  proof
    assume "fst ?run = Inr () \<and> trace (snd ?run) = trace w1 @ Call (Exists idx) # script idx old
          \<and> answered (respond es) (script idx old)"
    then have t: "trace (snd ?run) = trace w1 @ Call (Exists idx) # script idx old" by simp
    have full: "prefix ?A (script idx old)" unfolding script_delay by simp
    show ?thesis
    proof (intro exI [of _ "script idx old"] conjI allI impI)
      show "trace (snd ?run) = trace w1 @ Call (Exists idx) # script idx old" by (rule t)
    next
      fix pre i d b post
      assume "script idx old = pre @ Call (PutMapping i d b) # post"
      then have "prefix (pre @ Call (PutMapping i d b) # post) (script idx old)" by simp
      then show "prefix ?A pre" by (rule ordered)
    next
      show "prefix ?A (script idx old)" by (rule full)
    next
      show "prefix ?A (script idx old)" by (rule full)
    qed
  next
    assume "\<exists>before c. fst ?run = Inl (ElasticsearchException c)
            \<and> (\<exists>s. fst (respond es s c) = Raises)
            \<and> trace (snd ?run) = trace w1 @ Call (Exists idx) # before @ [Call c]
            \<and> prefix (before @ [Call c]) (script idx old)
            \<and> answered (respond es) before"
    then obtain before c where
      r: "fst ?run = Inl (ElasticsearchException c)"
      and t: "trace (snd ?run) = trace w1 @ Call (Exists idx) # before @ [Call c]"
      and p: "prefix (before @ [Call c]) (script idx old)"
      by blast
    show ?thesis
    proof (intro exI [of _ "before @ [Call c]"] conjI allI impI)
      show "trace (snd ?run) = trace w1 @ Call (Exists idx) # before @ [Call c]" by (rule t)
    next
      fix pre i d b post
      assume "before @ [Call c] = pre @ Call (PutMapping i d b) # post"
      with p have "prefix (pre @ Call (PutMapping i d b) # post) (script idx old)" by simp
      then show "prefix ?A pre" by (rule ordered)
    next
      assume "accepts (respond es) s1 creations"
      with t show "prefix ?A (before @ [Call c])" by (rule accepted)
    next
      assume "\<forall>c\<in>set creations. fst ?run \<noteq> Inl (ElasticsearchException c)"
      with r have "c \<notin> set creations" by blast
      then have n: "Call c \<notin> set ?A" by auto
      from p have "prefix (before @ Call c # []) (script idx old)" by simp
      from prefix_before [OF this [unfolded script_delay] n] have "prefix ?A before" .
      then show "prefix ?A (before @ [Call c])" by (rule prefix_prefix)
    qed
  qed
qed

theorem mappings_after_creations_and_delay_witness:
  "fst (main int_of_digits sample_cluster no_environ Map.empty
        (local_argv @ [OptIndex ''foo'', OptOldIndex []]) (start [] [])) = Inr ()
   \<and> prefix (Call (Exists ''foo'') # map Call creations @ [Sleep 2])
       (trace (snd (main int_of_digits sample_cluster no_environ Map.empty
          (local_argv @ [OptIndex ''foo'', OptOldIndex []]) (start [] []))))"
proof -
  let ?argv = "local_argv @ [OptIndex ''foo'', OptOldIndex []]"
  let ?w = "start [] ([] :: string list)"
  let ?run = "main int_of_digits sample_cluster no_environ Map.empty ?argv ?w"
  from local_settings [where i = "''foo''" and old = "[]" and s = "[] :: string list"]
  obtain es where
    2: "settings int_of_digits Map.empty
     ((defaults no_environ)\<lparr>args.host := Some ''localhost'', args.port := Some 9200,
          ssl := Some False, no_auth := Some True, args.url_prefix := Some [],
          index := Some ''foo'', old_index := Some []\<rparr>) ?w
     = (Inr (es, ''foo'', []), ?w)"
    by auto
  have 3: "sample_cluster es (cluster ?w) (Exists ''foo'') = (Returns False, [])"
    by (simp add: start_def)
  have 4: "accepts (sample_cluster es) [] creations"
    by (simp add: creations_def)
  have 5: "fst ?run = Inr ()"
    by (simp add: run_defs)
  then have 6: "\<forall>c\<in>set creations. fst ?run \<noteq> Inl (ElasticsearchException c)"
    by simp
  from mappings_after_creations_and_delay [where respond = sample_cluster, OF local_run 2 3]
  obtain evs where e: "trace (snd ?run) = trace ?w @ Call (Exists ''foo'') # evs
     \<and> (\<forall>pre i d b post. evs = pre @ Call (PutMapping i d b) # post
           \<longrightarrow> prefix (map Call creations @ [Sleep 2]) pre)
     \<and> (accepts (sample_cluster es) [] creations
           \<longrightarrow> prefix (map Call creations @ [Sleep 2]) evs)
     \<and> ((\<forall>c\<in>set creations. fst ?run \<noteq> Inl (ElasticsearchException c))
           \<longrightarrow> prefix (map Call creations @ [Sleep 2]) evs)" ..
  from e have t: "trace (snd ?run) = Call (Exists ''foo'') # evs" by (simp add: start_def)
  from e 4 have "prefix (map Call creations @ [Sleep 2]) evs" by blast
  moreover from e 6 have "prefix (map Call creations @ [Sleep 2]) evs" by blast
  ultimately show ?thesis using t 5 by simp
qed

subsection \<open>Copying the old index\<close>

text \<open>
  An old index is given and is not empty, but the target exists: nothing is copied.
\<close>

theorem copy_skipped_counterexample:
  "main int_of_digits sample_cluster no_environ Map.empty
     (local_argv @ [OptIndex ''foo'', OptOldIndex ''bar'']) (start [] [''foo'', ''bar''])
   = (Inr (), \<lparr>stdin = [], cluster = [''foo'', ''bar''],
        trace = [Call (Exists ''foo''),
                 Print ''Index foo already exists. Skipping index creation.'']\<rparr>)"
  by (simp add: run_defs)

text \<open>
  C4 (as amended). The copy request is sent only if the resolved old index is not empty,
  and then with the old index as its source and the target index as its destination, and
  only after all five creation requests, the delay and all five mapping requests; when the
  old index is empty it is never sent. It is sent whenever the old index is not empty, the
  target index does not exist and the cluster refuses no creation or mapping request.
\<close>

text \<open>
  C4 (as amended). The copy request is sent only if the resolved old index is not empty,
  and then with the old index as its source and the target index as its destination, and
  only after all five creation requests, the delay and all five mapping requests; when the
  old index is empty it is never sent. It is sent whenever the old index is not empty, the
  target index does not exist and no creation or mapping request raises in the run (the
  cluster answers each of the ten in the state in which it receives it; or, said of the
  result, the run does not end with the exception of one of them).
\<close>

theorem copy_after_mappings:
  assumes "parse_args to_int env argv = Inr a"
      and "settings to_int fs a w = (Inr (es, idx, old), w1)"
  shows "\<exists>evs. trace (snd (main to_int respond env fs argv w)) = trace w1 @ Call (Exists idx) # evs
     \<and> (\<forall>src dst. Call (Reindex src dst) \<in> set evs \<longrightarrow> old \<noteq> [] \<and> src = old \<and> dst = idx)
     \<and> (\<forall>pre src dst post. evs = pre @ Call (Reindex src dst) # post
           \<longrightarrow> prefix (map Call creations @ [Sleep 2] @ map Call mappings) pre)
     \<and> (old = [] \<longrightarrow> (\<forall>src dst. Call (Reindex src dst) \<notin> set evs))
     \<and> (respond es (cluster w) (Exists idx) = (Returns False, s1)
          \<and> accepts (respond es) s1 (creations @ mappings) \<and> old \<noteq> []
        \<longrightarrow> Call (Reindex old idx) \<in> set evs)
     \<and> (fst (respond es (cluster w) (Exists idx)) = Returns False
          \<and> (\<forall>c\<in>set creations \<union> set mappings.
                fst (main to_int respond env fs argv w) \<noteq> Inl (ElasticsearchException c))
          \<and> old \<noteq> []
        \<longrightarrow> Call (Reindex old idx) \<in> set evs)"
proof -
  let ?run = "main to_int respond env fs argv w"
  let ?skip = "Print (''Index '' @ idx @ '' already exists. Skipping index creation.'')"
  let ?A = "map Call creations @ [Sleep 2] @ map Call mappings"
  from main_events [OF assms, of respond] obtain evs where
    t: "trace (snd ?run) = trace w1 @ Call (Exists idx) # evs"
    and e: "evs = [?skip] \<or> prefix evs (script idx old)"
    by blast
  have a: "old \<noteq> [] \<and> src = old \<and> dst = idx" if "Call (Reindex src dst) \<in> set evs" for src dst
  proof -
    from e that have "prefix evs (script idx old)" by auto
    then have "set evs \<subseteq> set (script idx old)" by (rule set_mono_prefix)
    with that have "Call (Reindex src dst) \<in> set (script idx old)" by blast
    then show ?thesis
      using Reindex_not_creation_or_mapping [of src dst] by (simp add: Call_in_script)
  qed
  have b: "prefix ?A pre" if "evs = pre @ Call (Reindex src dst) # post" for pre src dst post
  proof -
    from that have "Call (Reindex src dst) \<in> set evs" by simp
    with e have "prefix evs (script idx old)" by auto
    then have p: "prefix (pre @ Call (Reindex src dst) # post) (script idx old)"
      using that by simp
    have "Call (Reindex src dst) \<notin> set ?A"
      using Reindex_not_creation_or_mapping [of src dst] by auto
    from prefix_before [OF p [unfolded script_mappings] this] show ?thesis .
  qed
  have c: "Call (Reindex old idx) \<in> set evs"
    if nf: "respond es (cluster w) (Exists idx) = (Returns False, s1)"
      and acc: "accepts (respond es) s1 (creations @ mappings)"
      and old: "old \<noteq> []"
  proof -
    let ?w1 = "w1\<lparr>cluster := s1, trace := trace w1 @ [Call (Exists idx)]\<rparr>"
    have m: "?run = create_all (respond es) idx old ?w1"
      by (rule main_create_all [where respond = respond, OF assms nf])
    from acc have "accepts (respond es) (cluster ?w1) (creations @ mappings)" by simp
    from create_all_copies [OF this old, of idx] obtain xs where
      "trace (snd ?run) = trace ?w1 @ xs" and x: "Call (Reindex old idx) \<in> set xs"
      unfolding m [symmetric] by blast
    with t have "evs = xs" by simp
    with x show ?thesis by simp
  qed
  have d: "Call (Reindex old idx) \<in> set evs"
    if nf: "fst (respond es (cluster w) (Exists idx)) = Returns False"
      and willing: "\<forall>c\<in>set creations \<union> set mappings. fst ?run \<noteq> Inl (ElasticsearchException c)"
      and old: "old \<noteq> []"
  proof -
    from main_not_found [where respond = respond, OF assms nf] show ?thesis
    proof
      assume "fst ?run = Inr () \<and> trace (snd ?run) = trace w1 @ Call (Exists idx) # script idx old
          \<and> answered (respond es) (script idx old)"
      with t have "evs = script idx old" by simp
      with old show ?thesis by (simp add: Call_in_script)
    next
      assume "\<exists>before c. fst ?run = Inl (ElasticsearchException c)
            \<and> (\<exists>s. fst (respond es s c) = Raises)
            \<and> trace (snd ?run) = trace w1 @ Call (Exists idx) # before @ [Call c]
            \<and> prefix (before @ [Call c]) (script idx old)
            \<and> answered (respond es) before"
      then obtain before c where
        r: "fst ?run = Inl (ElasticsearchException c)"
        and t': "trace (snd ?run) = trace w1 @ Call (Exists idx) # before @ [Call c]"
        and p: "prefix (before @ [Call c]) (script idx old)"
        by blast
      from t t' have evs: "evs = before @ [Call c]" by simp
      from p have "set (before @ [Call c]) \<subseteq> set (script idx old)" by (rule set_mono_prefix)
      then have "Call c \<in> set (script idx old)" by simp
      moreover from r willing have "c \<notin> set creations" "c \<notin> set mappings" by blast+
      ultimately have "c = Reindex old idx" by (simp add: Call_in_script)
      with evs show ?thesis by simp
    qed
  qed
  show ?thesis
  proof (intro exI [of _ evs] conjI allI impI)
    show "trace (snd ?run) = trace w1 @ Call (Exists idx) # evs" by (rule t)
  next
    fix src dst
    assume "Call (Reindex src dst) \<in> set evs"
    from a [OF this] show "old \<noteq> []" "src = old" "dst = idx" by simp_all
  next
    fix pre src dst post
    assume "evs = pre @ Call (Reindex src dst) # post"
    then show "prefix ?A pre" by (rule b)
  next
    fix src dst
    assume "old = []"
    with a [of src dst] show "Call (Reindex src dst) \<notin> set evs" by blast
  next
    assume "respond es (cluster w) (Exists idx) = (Returns False, s1)
          \<and> accepts (respond es) s1 (creations @ mappings) \<and> old \<noteq> []"
    then show "Call (Reindex old idx) \<in> set evs" by (intro c) simp_all
  next
    assume "fst (respond es (cluster w) (Exists idx)) = Returns False
          \<and> (\<forall>c\<in>set creations \<union> set mappings. fst ?run \<noteq> Inl (ElasticsearchException c))
          \<and> old \<noteq> []"
    then show "Call (Reindex old idx) \<in> set evs" by (intro d) simp_all
  qed
qed

theorem copy_after_mappings_witness:
  "Call (Reindex ''bar'' ''foo'')
     \<in> set (trace (snd (main int_of_digits sample_cluster no_environ Map.empty
          (local_argv @ [OptIndex ''foo'', OptOldIndex ''bar'']) (start [] [''bar'']))))
   \<and> (\<forall>src dst. Call (Reindex src dst)
     \<notin> set (trace (snd (main int_of_digits sample_cluster no_environ Map.empty
          (local_argv @ [OptIndex ''foo'', OptOldIndex []]) (start [] [''bar''])))))"
proof -
  let ?argv = "local_argv @ [OptIndex ''foo'', OptOldIndex ''bar'']"
  let ?w = "start [] [''bar'']"
  let ?run = "main int_of_digits sample_cluster no_environ Map.empty ?argv ?w"
  let ?argv' = "local_argv @ [OptIndex ''foo'', OptOldIndex []]"
  let ?run' = "main int_of_digits sample_cluster no_environ Map.empty ?argv' ?w"
  from local_settings [where i = "''foo''" and old = "''bar''" and s = "[''bar'']"] obtain es where
    2: "settings int_of_digits Map.empty
     ((defaults no_environ)\<lparr>args.host := Some ''localhost'', args.port := Some 9200,
          ssl := Some False, no_auth := Some True, args.url_prefix := Some [],
          index := Some ''foo'', old_index := Some ''bar''\<rparr>) ?w
     = (Inr (es, ''foo'', ''bar''), ?w)"
    by auto
  have 3: "sample_cluster es (cluster ?w) (Exists ''foo'') = (Returns False, [''bar''])
      \<and> accepts (sample_cluster es) [''bar''] (creations @ mappings) \<and> ''bar'' \<noteq> []"
    by (simp add: start_def creations_def mappings_def)
  have 4: "fst ?run = Inr ()"
    by (simp add: run_defs)
  then have 5: "fst (sample_cluster es (cluster ?w) (Exists ''foo'')) = Returns False
      \<and> (\<forall>c\<in>set creations \<union> set mappings. fst ?run \<noteq> Inl (ElasticsearchException c))
      \<and> ''bar'' \<noteq> []"
    by (simp add: start_def)
  from copy_after_mappings [where respond = sample_cluster and ?s1.0 = "[''bar'']", OF local_run 2]
  obtain evs where e: "trace (snd ?run) = trace ?w @ Call (Exists ''foo'') # evs
     \<and> (\<forall>src dst. Call (Reindex src dst) \<in> set evs \<longrightarrow> ''bar'' \<noteq> [] \<and> src = ''bar'' \<and> dst = ''foo'')
     \<and> (\<forall>pre src dst post. evs = pre @ Call (Reindex src dst) # post
           \<longrightarrow> prefix (map Call creations @ [Sleep 2] @ map Call mappings) pre)
     \<and> (''bar'' = [] \<longrightarrow> (\<forall>src dst. Call (Reindex src dst) \<notin> set evs))
     \<and> (sample_cluster es (cluster ?w) (Exists ''foo'') = (Returns False, [''bar''])
          \<and> accepts (sample_cluster es) [''bar''] (creations @ mappings) \<and> ''bar'' \<noteq> []
        \<longrightarrow> Call (Reindex ''bar'' ''foo'') \<in> set evs)
     \<and> (fst (sample_cluster es (cluster ?w) (Exists ''foo'')) = Returns False
          \<and> (\<forall>c\<in>set creations \<union> set mappings. fst ?run \<noteq> Inl (ElasticsearchException c))
          \<and> ''bar'' \<noteq> []
        \<longrightarrow> Call (Reindex ''bar'' ''foo'') \<in> set evs)" ..
  from e have t: "trace (snd ?run) = Call (Exists ''foo'') # evs" by (simp add: start_def)
  from e 3 have "Call (Reindex ''bar'' ''foo'') \<in> set evs" by blast
  moreover from e 5 have "Call (Reindex ''bar'' ''foo'') \<in> set evs" by blast
  ultimately have first: "Call (Reindex ''bar'' ''foo'') \<in> set (trace (snd ?run))"
    using t by simp
  from local_settings [where i = "''foo''" and old = "[]" and s = "[''bar'']"] obtain es' where
    2: "settings int_of_digits Map.empty
     ((defaults no_environ)\<lparr>args.host := Some ''localhost'', args.port := Some 9200,
          ssl := Some False, no_auth := Some True, args.url_prefix := Some [],
          index := Some ''foo'', old_index := Some []\<rparr>) ?w
     = (Inr (es', ''foo'', []), ?w)"
    by auto
  from copy_after_mappings [where respond = sample_cluster and ?s1.0 = "[''bar'']", OF local_run 2]
  obtain evs' where e': "trace (snd ?run') = trace ?w @ Call (Exists ''foo'') # evs'
     \<and> (\<forall>src dst. Call (Reindex src dst) \<in> set evs' \<longrightarrow> ([]::string) \<noteq> [] \<and> src = [] \<and> dst = ''foo'')
     \<and> (\<forall>pre src dst post. evs' = pre @ Call (Reindex src dst) # post
           \<longrightarrow> prefix (map Call creations @ [Sleep 2] @ map Call mappings) pre)
     \<and> (([]::string) = [] \<longrightarrow> (\<forall>src dst. Call (Reindex src dst) \<notin> set evs'))
     \<and> (sample_cluster es' (cluster ?w) (Exists ''foo'') = (Returns False, [''bar''])
          \<and> accepts (sample_cluster es') [''bar''] (creations @ mappings) \<and> ([]::string) \<noteq> []
        \<longrightarrow> Call (Reindex [] ''foo'') \<in> set evs')
     \<and> (fst (sample_cluster es' (cluster ?w) (Exists ''foo'')) = Returns False
          \<and> (\<forall>c\<in>set creations \<union> set mappings. fst ?run' \<noteq> Inl (ElasticsearchException c))
          \<and> ([]::string) \<noteq> []
        \<longrightarrow> Call (Reindex [] ''foo'') \<in> set evs')" ..
  from e' have t': "trace (snd ?run') = Call (Exists ''foo'') # evs'" by (simp add: start_def)
  from e' have "\<forall>src dst. Call (Reindex src dst) \<notin> set evs'" by blast
  with t' have second: "\<forall>src dst. Call (Reindex src dst) \<notin> set (trace (snd ?run'))" by simp
  from first second show ?thesis by blast
qed

end
